theory Spec2Isabelle
  imports Complex_Main
begin

section \<open>JavaScript values and control flow used by the engine\<close>

text \<open>
  Slither is written in JavaScript. The fragments of the language that the engine relies on
  are made explicit here: an uncaught exception is a value of \<open>js_error\<close>, the argument
  of a function that is tested with \<open>typeof(x) != 'function'\<close> is a \<open>js_value\<close>,
  and an object reference that is tested for truthiness is an \<open>option\<close> whose
  \<open>None\<close> stands for \<open>undefined\<close>/\<open>null\<close>.
\<close>

datatype js_error = TypeError | Error string

datatype 'f js_value = Function 'f | NotFunction

section \<open>Slither.Core.EventManager\<close>

text \<open>
  A handler is the object \<open>{ callback: callback, owner: owner }\<close> pushed by \<open>register\<close>;
  the \<open>owner\<close> property is only set when the owner is truthy. Callbacks are JavaScript
  function objects compared by identity (\<open>===\<close>); they are values of the type \<open>'f\<close>.
  \<open>events\<close> is the hash from event type to the array of handlers.
\<close>

record ('f, 'o) handler =
  callback :: 'f
  owner :: "'o option"

record ('f, 'o) EventManager =
  events :: "string \<rightharpoonup> ('f, 'o) handler list"

text \<open>The \<open>for\<close> loop of \<open>searchForCallback\<close>, started at index \<open>i\<close>.\<close>

fun searchLoop :: "('f, 'o) handler list \<Rightarrow> 'f \<Rightarrow> 'o option \<Rightarrow> int \<Rightarrow> int" where
  "searchLoop [] f ow i = - 1"
| "searchLoop (h # hs) f ow i =
     (if ow \<noteq> None then
        (if callback h = f \<and> owner h = ow then i else searchLoop hs f ow (i + 1))
      else if callback h = f then i
      else searchLoop hs f ow (i + 1))"

definition searchForCallback ::
  "('f, 'o) handler list option \<Rightarrow> 'f js_value \<Rightarrow> 'o option \<Rightarrow> int" where
  "searchForCallback handlers cb ow =
     (case handlers of
        None \<Rightarrow> - 1
      | Some hs \<Rightarrow> (case cb of NotFunction \<Rightarrow> - 1 | Function f \<Rightarrow> searchLoop hs f ow 0))"

definition register ::
  "('f, 'o, 'z) EventManager_scheme \<Rightarrow> string \<Rightarrow> 'f js_value \<Rightarrow> 'o option
   \<Rightarrow> bool \<times> ('f, 'o, 'z) EventManager_scheme" where
  "register w event_type cb ow =
     (case cb of
        NotFunction \<Rightarrow> (False, w)
      | Function f \<Rightarrow>
          (let w1 = (if events w event_type = None
                     then w\<lparr>events := (events w)(event_type \<mapsto> [])\<rparr> else w);
               handlers = (case events w1 event_type of None \<Rightarrow> [] | Some hs \<Rightarrow> hs)
           in if searchForCallback (Some handlers) cb ow = - 1
              then (True, w1\<lparr>events := (events w1)(event_type \<mapsto>
                                handlers @ [\<lparr>callback = f, owner = ow\<rparr>])\<rparr>)
              else (False, w1)))"

definition clear ::
  "('f, 'o, 'z) EventManager_scheme \<Rightarrow> string \<Rightarrow> bool \<times> ('f, 'o, 'z) EventManager_scheme" where
  "clear w event_type =
     (if events w event_type \<noteq> None
      then (True, w\<lparr>events := (events w)(event_type := None)\<rparr>)
      else (False, w))"

definition clearAll :: "('f, 'o, 'z) EventManager_scheme \<Rightarrow> ('f, 'o, 'z) EventManager_scheme" where
  "clearAll w = w\<lparr>events := Map.empty\<rparr>"

definition unregister ::
  "('f, 'o, 'z) EventManager_scheme \<Rightarrow> string \<Rightarrow> 'f js_value \<Rightarrow> 'o option
   \<Rightarrow> bool \<times> ('f, 'o, 'z) EventManager_scheme" where
  "unregister w event_type cb ow =
     (case cb of
        NotFunction \<Rightarrow> (False, w)
      | Function f \<Rightarrow>
          (case events w event_type of
             None \<Rightarrow> (False, w)
           | Some handlers \<Rightarrow>
               (let index = searchForCallback (Some handlers) cb ow in
                if index \<noteq> - 1 then
                  (let spliced = take (nat index) handlers @ drop (nat index + 1) handlers;
                       w1 = w\<lparr>events := (events w)(event_type \<mapsto> spliced)\<rparr>
                   in if length spliced = 0 then (True, snd (clear w1 event_type))
                      else (True, w1))
                else (False, w))))"

text \<open>
  What a callback does when it is called: it runs arbitrary code on the whole program state
  \<open>'w\<close> (of which the event manager is a part, so a callback may itself register,
  unregister or trigger), and it either returns the boolean \<open>false\<close>, returns anything
  else, or throws. A callback that never returns is not modelled.
\<close>

datatype completion = Return_false | Return_other | Throw js_error

datatype outcome = Completed | Raised js_error

type_synonym ('f, 'o) firing = "nat \<times> ('f, 'o) handler \<times> completion"

text \<open>
  The \<open>for\<close> loop of \<open>trigger\<close> from index \<open>i\<close>. The loop reads
  \<open>this.events[event_type].length\<close> and \<open>this.events[event_type][i]\<close> afresh in every
  round, so it sees what the callbacks did to the handler list; when a callback has deleted
  the event type, reading \<open>length\<close> of \<open>undefined\<close> is a TypeError. A callback that
  keeps registering handlers keeps the loop running, hence the loop is a partial function.
  \<open>fired\<close> records, in order, the index and handler of every callback that was called and
  how the call completed; it is the observable behaviour of the dispatch.
\<close>

partial_function (option) trigger_loop ::
  "('f \<Rightarrow> 'o option \<Rightarrow> 's \<Rightarrow> 'd \<Rightarrow> ('f, 'o, 'z) EventManager_scheme
      \<Rightarrow> completion \<times> ('f, 'o, 'z) EventManager_scheme)
   \<Rightarrow> string \<Rightarrow> 's \<Rightarrow> 'd \<Rightarrow> 'o option \<Rightarrow> nat \<Rightarrow> ('f, 'o) firing list
   \<Rightarrow> ('f, 'o, 'z) EventManager_scheme
   \<Rightarrow> (outcome \<times> ('f, 'o) firing list \<times> ('f, 'o, 'z) EventManager_scheme) option"
where
  "trigger_loop call event_type sender data target_only i fired w =
     (case events w event_type of
        None \<Rightarrow> Some (Raised TypeError, fired, w)
      | Some hs \<Rightarrow>
          if i < length hs then
            (let h = hs ! i in
             if target_only \<noteq> None \<and> target_only \<noteq> owner h
             then trigger_loop call event_type sender data target_only (i + 1) fired w
             else (case call (callback h) (owner h) sender data w of
                     (Return_false, w') \<Rightarrow> Some (Completed, fired @ [(i, h, Return_false)], w')
                   | (Return_other, w') \<Rightarrow>
                       trigger_loop call event_type sender data target_only (i + 1)
                         (fired @ [(i, h, Return_other)]) w'
                   | (Throw e, w') \<Rightarrow> Some (Raised e, fired @ [(i, h, Throw e)], w')))
          else Some (Completed, fired, w))"

definition trigger ::
  "('f \<Rightarrow> 'o option \<Rightarrow> 's \<Rightarrow> 'd \<Rightarrow> ('f, 'o, 'z) EventManager_scheme
      \<Rightarrow> completion \<times> ('f, 'o, 'z) EventManager_scheme)
   \<Rightarrow> string \<Rightarrow> 's \<Rightarrow> 'd \<Rightarrow> 'o option \<Rightarrow> ('f, 'o, 'z) EventManager_scheme
   \<Rightarrow> (outcome \<times> ('f, 'o) firing list \<times> ('f, 'o, 'z) EventManager_scheme) option" where
  "trigger call event_type sender data target_only w =
     (if events w event_type \<noteq> None
      then trigger_loop call event_type sender data target_only 0 [] w
      else Some (Completed, [], w))"

text \<open>
  Two notions used to state properties of \<open>trigger\<close>. \<open>keeps_handlers call t\<close> says that
  no callback changes the handler list of event type \<open>t\<close> while it runs.
  \<open>dispatch\<close> is the loop of \<open>trigger\<close> run over a fixed handler list \<open>hs\<close>, the
  first of which has index \<open>i\<close>; lemma \<open>trigger_loop_dispatch\<close> shows that it is what
  \<open>trigger_loop\<close> computes when the callbacks keep the handlers of the event type.
\<close>

definition keeps_handlers ::
  "('f \<Rightarrow> 'o option \<Rightarrow> 's \<Rightarrow> 'd \<Rightarrow> ('f, 'o, 'z) EventManager_scheme
      \<Rightarrow> completion \<times> ('f, 'o, 'z) EventManager_scheme) \<Rightarrow> string \<Rightarrow> bool" where
  "keeps_handlers call event_type =
     (\<forall>f ow sender data w. events (snd (call f ow sender data w)) event_type = events w event_type)"

fun dispatch ::
  "('f \<Rightarrow> 'o option \<Rightarrow> 's \<Rightarrow> 'd \<Rightarrow> 'w \<Rightarrow> completion \<times> 'w)
   \<Rightarrow> 's \<Rightarrow> 'd \<Rightarrow> 'o option \<Rightarrow> nat \<Rightarrow> ('f, 'o) handler list \<Rightarrow> ('f, 'o) firing list \<Rightarrow> 'w
   \<Rightarrow> outcome \<times> ('f, 'o) firing list \<times> 'w" where
  "dispatch call sender data target_only i [] fired w = (Completed, fired, w)"
| "dispatch call sender data target_only i (h # hs) fired w =
     (if target_only \<noteq> None \<and> target_only \<noteq> owner h
      then dispatch call sender data target_only (i + 1) hs fired w
      else (case call (callback h) (owner h) sender data w of
              (Return_false, w') \<Rightarrow> (Completed, fired @ [(i, h, Return_false)], w')
            | (Return_other, w') \<Rightarrow>
                dispatch call sender data target_only (i + 1) hs (fired @ [(i, h, Return_other)]) w'
            | (Throw e, w') \<Rightarrow> (Raised e, fired @ [(i, h, Throw e)], w')))"


section \<open>Slither: constants and utilities (core.js)\<close>

text \<open>
  JavaScript numbers are modelled as rationals (\<open>rat\<close>) where fractions occur and as
  integers where the program only ever produces integers (coordinates, counts, lengths,
  heading codes). \<open>Math.random()\<close> is an input: a function that draws a random number
  takes the drawn value \<open>u\<close>, \<open>0 \<le> u < 1\<close>, as its first argument.
\<close>

definition FRAME_RATE :: int where "FRAME_RATE = 40"

definition SpeedLevels_Min :: int where "SpeedLevels_Min = 1"
definition SpeedLevels_Max :: int where "SpeedLevels_Max = 5"

definition Headings_Left :: int where "Headings_Left = 1"
definition Headings_Up :: int where "Headings_Up = 2"
definition Headings_Right :: int where "Headings_Right = 3"
definition Headings_Down :: int where "Headings_Down = 4"

definition Math_round :: "rat \<Rightarrow> int" where
  "Math_round x = \<lfloor>x + 1 / 2\<rfloor>"

definition genNumber :: "rat \<Rightarrow> int \<Rightarrow> int \<Rightarrow> int" where
  "genNumber u low high =
     (if low = high then low else \<lfloor>u * of_int (high - low + 1)\<rfloor> + low)"

section \<open>Game objects and what they hand to their collaborators\<close>

text \<open>
  A game object is a reference (its identity) together with the class it was made from,
  which is what \<open>instanceof\<close> asks for. A handler or method records, in order, the calls it
  makes into its collaborators: \<open>EventManager.trigger(event_type, sender, data, target_only)\<close>,
  \<open>EventManager.register\<close> for an object's own callbacks, and \<open>obj.clear()\<close>.
  What the subscribers do with a triggered event is their own step.
\<close>

datatype obj_class =
  Snake_class | Grain_class | Mouse_class | Rat_class | Wall_class | UpgradeItem_class
  | PoisonItem_class

datatype entity = Entity (ident: nat) (cls: obj_class)

datatype sender = Game_sender | Obj entity

datatype event_data =
    No_data
  | Coord int int
  | Collision (initiator: entity) (receiver: entity) int int
  | Granted (target: entity) int int
  | Win bool

datatype effect =
    Trigger string sender event_data "entity option"
  | Register string entity
  | Clear entity

section \<open>Slither.Objects.Base (core.js)\<close>

record Base =
  self :: entity
  body_blocks :: "(int \<times> int) list"
  speed :: "rat option"
  heading :: "int option"

datatype speed_arg = Speed rat | Random_speed | No_speed

definition getSpeed :: "'a Base_scheme \<Rightarrow> rat" where
  "getSpeed b =
     (case speed b of
        None \<Rightarrow> of_int SpeedLevels_Min
      | Some v \<Rightarrow> if v = 0 then of_int SpeedLevels_Min else v)"

definition setSpeed :: "rat \<Rightarrow> speed_arg \<Rightarrow> 'a Base_scheme \<Rightarrow> 'a Base_scheme" where
  "setSpeed u arg b =
     b\<lparr>speed := Some
        (case arg of
           No_speed \<Rightarrow> of_int SpeedLevels_Min
         | Speed v \<Rightarrow>
             if v = 0 \<or> v < of_int SpeedLevels_Min then of_int SpeedLevels_Min
             else if v > of_int SpeedLevels_Max then of_int SpeedLevels_Max
             else v
         | Random_speed \<Rightarrow> of_int (genNumber u SpeedLevels_Min SpeedLevels_Max))\<rparr>"

definition eraseBlock :: "'a Base_scheme \<Rightarrow> int \<Rightarrow> int \<Rightarrow> effect list" where
  "eraseBlock b x y = [Trigger ''dealloc'' (Obj (self b)) (Coord x y) None]"

definition allocBlock :: "'a Base_scheme \<Rightarrow> int option \<Rightarrow> int option \<Rightarrow> effect list" where
  "allocBlock b x y =
     (case (x, y) of
        (Some x', Some y') \<Rightarrow> [Trigger ''alloc'' (Obj (self b)) (Coord x' y') None]
      | _ \<Rightarrow> [])"

section \<open>Slither.Objects.Snake\<close>

record Snake = Base +
  heading_queue :: "int list"
  length_cfg :: "int option"
  applied_upgrades :: "int list"

definition MIN_LENGTH :: int where "MIN_LENGTH = 2"

text \<open>
  The heading queue. A heading is the number of \<open>Slither.Headings\<close>; \<open>this.heading\<close> is
  \<open>null\<close> until \<open>getHeading\<close> has applied the first queued heading. The argument of
  \<open>setHeading\<close> is any number, \<open>0\<close> standing for a falsy argument.
\<close>

definition getHeading :: "Snake \<Rightarrow> int option \<times> Snake" where
  "getHeading s =
     (case heading_queue s of
        [] \<Rightarrow> (heading s, s)
      | h # rest \<Rightarrow> (Some h, s\<lparr>heading := Some h, heading_queue := rest\<rparr>))"

definition setHeading :: "int \<Rightarrow> Snake \<Rightarrow> Snake" where
  "setHeading h s =
     (if h = 0 then s
      else if heading_queue s \<noteq> [] \<and> h = last (heading_queue s) then s
      else
        (let allow =
           (if h = Headings_Up then heading s \<noteq> Some Headings_Down
            else if h = Headings_Down then heading s \<noteq> Some Headings_Up
            else if h = Headings_Left then heading s \<noteq> Some Headings_Right
            else if h = Headings_Right then heading s \<noteq> Some Headings_Left
            else False)
         in if allow then s\<lparr>heading_queue := heading_queue s @ [h]\<rparr> else s))"

text \<open>
  The configured length. \<open>this.length\<close> is \<open>undefined\<close> until \<open>setLength\<close> has run; the
  argument of \<open>setLength\<close> may be missing (\<open>None\<close>), and \<open>0\<close> is falsy.
\<close>

definition getLength :: "Snake \<Rightarrow> int" where
  "getLength s =
     (case length_cfg s of
        None \<Rightarrow> MIN_LENGTH
      | Some l \<Rightarrow> if l = 0 then MIN_LENGTH else l)"

text \<open>
  The loop of \<open>setLength\<close> that shifts \<open>n\<close> blocks off the tail. \<open>shift()\<close> on an empty
  array gives \<open>undefined\<close>, and reading \<open>tail_block.x\<close> is then a TypeError.
\<close>

fun eraseTail :: "nat \<Rightarrow> Snake \<Rightarrow> effect list \<Rightarrow> js_error option \<times> Snake \<times> effect list" where
  "eraseTail 0 s out = (None, s, out)"
| "eraseTail (Suc n) s out =
     (case body_blocks s of
        [] \<Rightarrow> (Some TypeError, s, out)
      | (x, y) # rest \<Rightarrow>
          eraseTail n (s\<lparr>body_blocks := rest\<rparr>) (out @ eraseBlock s x y))"

definition setLength :: "int option \<Rightarrow> Snake \<Rightarrow> js_error option \<times> Snake \<times> effect list" where
  "setLength arg s =
     (let len = (case arg of
                   None \<Rightarrow> MIN_LENGTH
                 | Some l \<Rightarrow> if l = 0 \<or> l < MIN_LENGTH then MIN_LENGTH else l)
      in case length_cfg s of
           None \<Rightarrow> (None, s\<lparr>length_cfg := Some len\<rparr>, [])
         | Some cur \<Rightarrow>
             if cur = 0 then (None, s\<lparr>length_cfg := Some len\<rparr>, [])
             else
               (let diff = cur - len in
                if diff > 1 then
                  (case eraseTail (nat diff) s [] of
                     (Some e, s', out) \<Rightarrow> (Some e, s', out)
                   | (None, s', out) \<Rightarrow> (None, s'\<lparr>length_cfg := Some len\<rparr>, out))
                else (None, s\<lparr>length_cfg := Some len\<rparr>, [])))"


text \<open>The direct reverse of a heading; used to state what \<open>setHeading\<close> accepts.\<close>

definition opposite :: "int \<Rightarrow> int" where
  "opposite h =
     (if h = Headings_Up then Headings_Down
      else if h = Headings_Down then Headings_Up
      else if h = Headings_Left then Headings_Right
      else if h = Headings_Right then Headings_Left
      else 0)"

definition getUpgrades :: "Snake \<Rightarrow> int list" where
  "getUpgrades s = applied_upgrades s"

definition hasUpgrade :: "Snake \<Rightarrow> int \<Rightarrow> bool" where
  "hasUpgrade s upgrade_type = (upgrade_type \<in> set (applied_upgrades s))"

definition addUpgrade :: "int \<Rightarrow> Snake \<Rightarrow> bool \<times> Snake" where
  "addUpgrade upgrade_type s =
     (if hasUpgrade s upgrade_type then (False, s)
      else (True, s\<lparr>applied_upgrades := applied_upgrades s @ [upgrade_type]\<rparr>))"

text \<open>
  The constructor. \<open>me\<close> is the identity of the object that \<open>new\<close> creates. The options
  are \<open>options.heading\<close>, \<open>options.length\<close> and \<open>options.speed\<close>; the start position is
  always set to the top-left cell. The base constructor registers the two callbacks of the
  new object (a fresh owner, so \<open>register\<close> accepts both) and asks for the start cell.
\<close>

record Snake_options =
  opt_heading :: "int option"
  opt_length :: "int option"
  opt_speed :: speed_arg

definition new_Snake ::
  "entity \<Rightarrow> rat \<Rightarrow> Snake_options \<Rightarrow> js_error option \<times> Snake \<times> effect list" where
  "new_Snake me u options =
     (let s0 = \<lparr>self = me, body_blocks = [], speed = None, heading = None,
                heading_queue = [], length_cfg = None, applied_upgrades = []\<rparr>;
          s1 = setHeading (case opt_heading options of
                             None \<Rightarrow> Headings_Right
                           | Some h \<Rightarrow> if h = 0 then Headings_Right else h) s0
      in case setLength (opt_length options) s1 of
           (Some e, s2, out) \<Rightarrow> (Some e, s2, out)
         | (None, s2, out) \<Rightarrow>
             (let s3 = setSpeed u (opt_speed options) (s2\<lparr>body_blocks := []\<rparr>)
              in (None, s3,
                  out @ [Register ''collide'' me, Register ''alloc-recv'' me]
                      @ allocBlock s3 (Some 0) (Some 0))))"

section \<open>Slither.Game\<close>

text \<open>
  The state of the game. \<open>level\<close> and \<open>levels_count\<close> are \<open>LevelManager.level\<close> and
  \<open>LevelManager.levels.length\<close>, \<open>object_man_started\<close> is \<open>ObjectManager.started\<close> (the
  animation timer runs), \<open>objects\<close> is \<open>ObjectManager.objects\<close>. \<open>alloc_info\<close> maps an
  x coordinate to the object that holds, under \<open>length\<close>, the number of owned cells of
  that column and, under each owned y coordinate, the owner. \<open>next_ident\<close> supplies the
  identity of the next object made by \<open>new\<close>.
\<close>

record alloc_column =
  length_col :: int
  cells :: "int \<rightharpoonup> entity"

record lifecycle =
  started :: bool
  finished :: bool
  player_dead :: bool
  level :: int
  levels_count :: int
  object_man_started :: bool

record Game = lifecycle +
  score :: rat
  lives :: int
  game_speed :: "rat option"
  snake :: "Snake option"
  objects :: "entity list"
  alloc_info :: "int \<rightharpoonup> alloc_column"
  next_ident :: nat

subsection \<open>The allocation grid\<close>

definition getAllocObj :: "'a Game_scheme \<Rightarrow> int \<Rightarrow> int \<Rightarrow> entity option" where
  "getAllocObj g x y =
     (case alloc_info g x of
        None \<Rightarrow> None
      | Some item \<Rightarrow> cells item y)"

definition setAllocObj :: "'a Game_scheme \<Rightarrow> int \<Rightarrow> int \<Rightarrow> entity \<Rightarrow> 'a Game_scheme" where
  "setAllocObj g x y ow =
     (let item = (case alloc_info g x of
                    None \<Rightarrow> \<lparr>length_col = 0, cells = Map.empty\<rparr>
                  | Some it \<Rightarrow> it)
      in g\<lparr>alloc_info := (alloc_info g)(x \<mapsto>
             item\<lparr>cells := (cells item)(y \<mapsto> ow), length_col := length_col item + 1\<rparr>)\<rparr>)"

definition onAlloc ::
  "entity \<Rightarrow> int \<Rightarrow> int \<Rightarrow> 'a Game_scheme \<Rightarrow> 'a Game_scheme \<times> effect list" where
  "onAlloc sndr x y g =
     (case getAllocObj g x y of
        Some ow \<Rightarrow> (g, [Trigger ''collide'' Game_sender (Collision sndr ow x y) None])
      | None \<Rightarrow>
          (setAllocObj g x y sndr,
           [Trigger ''alloc-recv'' Game_sender (Granted sndr x y) (Some sndr)]))"

definition onDealloc :: "entity \<Rightarrow> int \<Rightarrow> int \<Rightarrow> 'a Game_scheme \<Rightarrow> 'a Game_scheme" where
  "onDealloc sndr x y g =
     (if getAllocObj g x y = Some sndr then
        (case alloc_info g x of
           None \<Rightarrow> g
         | Some item \<Rightarrow>
             if length_col item - 1 = 0
             then g\<lparr>alloc_info := (alloc_info g)(x := None)\<rparr>
             else g\<lparr>alloc_info := (alloc_info g)(x \<mapsto>
                    item\<lparr>length_col := length_col item - 1, cells := (cells item)(y := None)\<rparr>)\<rparr>)
      else g)"

text \<open>
  The two handlers are the only code that changes the grid while a game runs; a run of the
  grid is a sequence of \<open>alloc\<close> and \<open>dealloc\<close> events handled in order.
\<close>

datatype grid_event = Alloc entity int int | Dealloc entity int int

fun handle_grid :: "grid_event \<Rightarrow> 'a Game_scheme \<Rightarrow> 'a Game_scheme" where
  "handle_grid (Alloc sndr x y) g = fst (onAlloc sndr x y g)"
| "handle_grid (Dealloc sndr x y) g = onDealloc sndr x y g"

fun handle_all :: "grid_event list \<Rightarrow> 'a Game_scheme \<Rightarrow> 'a Game_scheme" where
  "handle_all [] g = g"
| "handle_all (e # es) g = handle_all es (handle_grid e g)"

text \<open>
  The sparse representation: every column object that is present holds at least one cell,
  and its \<open>length\<close> is the number of cells it holds.
\<close>

definition sparse :: "'a Game_scheme \<Rightarrow> bool" where
  "sparse g =
     (\<forall>x item. alloc_info g x = Some item \<longrightarrow>
        finite (dom (cells item)) \<and> length_col item = int (card (dom (cells item))) \<and>
        0 < length_col item)"


subsection \<open>Speed, the object list and the Player\<close>

definition Game_getSpeed :: "'a Game_scheme \<Rightarrow> rat" where
  "Game_getSpeed g =
     (case (case snake g of Some s \<Rightarrow> Some (getSpeed s) | None \<Rightarrow> game_speed g) of
        None \<Rightarrow> of_int SpeedLevels_Min
      | Some v \<Rightarrow> if v = 0 then of_int SpeedLevels_Min else v)"

definition Game_setSpeed :: "rat \<Rightarrow> rat \<Rightarrow> 'a Game_scheme \<Rightarrow> 'a Game_scheme" where
  "Game_setSpeed u v g =
     (let v' = (if v < of_int SpeedLevels_Min then of_int SpeedLevels_Min
                else if v > of_int SpeedLevels_Max then of_int SpeedLevels_Max
                else v);
          g1 = g\<lparr>game_speed := Some v'\<rparr>
      in case snake g1 of
           None \<Rightarrow> g1
         | Some s \<Rightarrow> g1\<lparr>snake := Some (setSpeed u (Speed v') s)\<rparr>)"

text \<open>
  \<open>ObjectManager.add\<close>, \<open>remove\<close> and \<open>getCount\<close>. The manager keeps its \<open>types\<close> counts
  under the key \<open>typeof(obj)\<close>, which is \<open>'object'\<close> for every game object, so \<open>getCount\<close> of
  a class never finds its key there and always counts the objects that are instances of
  the class.
\<close>

definition object_man_add :: "entity \<Rightarrow> 'a Game_scheme \<Rightarrow> bool \<times> 'a Game_scheme" where
  "object_man_add obj g =
     (if obj \<notin> set (objects g) then (True, g\<lparr>objects := objects g @ [obj]\<rparr>) else (False, g))"

definition object_man_remove ::
  "entity \<Rightarrow> 'a Game_scheme \<Rightarrow> bool \<times> 'a Game_scheme \<times> effect list" where
  "object_man_remove obj g =
     (if obj \<notin> set (objects g) then (False, g, [])
      else (True, g\<lparr>objects := remove1 obj (objects g)\<rparr>, [Clear obj]))"

definition getCount :: "'a Game_scheme \<Rightarrow> obj_class \<Rightarrow> nat" where
  "getCount g c = length (filter (\<lambda>obj. cls obj = c) (objects g))"

fun addUpgrades :: "int list \<Rightarrow> Snake \<Rightarrow> Snake" where
  "addUpgrades [] s = s"
| "addUpgrades (t # ts) s = addUpgrades ts (snd (addUpgrade t s))"

definition setupSnake ::
  "bool option \<Rightarrow> rat \<Rightarrow> 'a Game_scheme \<Rightarrow> js_error option \<times> 'a Game_scheme \<times> effect list" where
  "setupSnake reset_arg u g =
     (let g1 = g\<lparr>player_dead := False\<rparr>;
          reset = (case reset_arg of None \<Rightarrow> True | Some r \<Rightarrow> r);
          len = (case snake g1 of Some s \<Rightarrow> Some (getLength s) | None \<Rightarrow> None);
          upgrades = (case snake g1 of Some s \<Rightarrow> Some (getUpgrades s) | None \<Rightarrow> None);
          (g2, out1) = (case snake g1 of
                          Some s \<Rightarrow> (case object_man_remove (self s) g1 of (_, g', out) \<Rightarrow> (g', out))
                        | None \<Rightarrow> (g1, []));
          g3 = g2\<lparr>snake := None\<rparr>;
          opts = \<lparr>opt_heading = None,
                  opt_length = (if \<not> reset \<and> len \<noteq> None \<and> len \<noteq> Some 0 then len else None),
                  opt_speed = Speed (Game_getSpeed g3)\<rparr>
      in case new_Snake (Entity (next_ident g3) Snake_class) u opts of
           (Some e, _, out2) \<Rightarrow> (Some e, g3, out1 @ out2)
         | (None, s, out2) \<Rightarrow>
             (let s' = (case upgrades of
                          Some ups \<Rightarrow> if \<not> reset then addUpgrades ups s else s
                        | None \<Rightarrow> s);
                  g4 = g3\<lparr>snake := Some s', next_ident := next_ident g3 + 1\<rparr>
              in (None, snd (object_man_add (self s') g4), out1 @ out2)))"

text \<open>
  The constructor of the game: an empty grid, the speed and the lives of the options (a
  number of lives that is not positive becomes the default 3), a Player, and the seven
  levels with none started. The flags \<open>started\<close>, \<open>finished\<close> and \<open>player_dead\<close> are not
  set by the constructor and read as false.
\<close>

definition new_Game :: "rat \<Rightarrow> rat \<Rightarrow> int \<Rightarrow> js_error option \<times> Game \<times> effect list" where
  "new_Game u speed_opt lives_opt =
     (let g0 = \<lparr>started = False, finished = False, player_dead = False, level = - 1,
                levels_count = 0, object_man_started = False, score = 0, lives = 0,
                game_speed = None, snake = None, objects = [], alloc_info = Map.empty,
                next_ident = 0\<rparr>;
          g1 = Game_setSpeed u speed_opt g0;
          g2 = g1\<lparr>score := 0, lives := (if lives_opt \<le> 0 then 3 else lives_opt)\<rparr>
      in case setupSnake None u g2 of
           (e, g3, out) \<Rightarrow> (e, g3\<lparr>level := - 1, levels_count := 7\<rparr>, out))"

subsection \<open>start, pause, end\<close>

text \<open>
  \<open>Game.start\<close> calls into two collaborators whose code runs other handlers of the game:
  \<open>level_man.advance()\<close>, which runs the set-up of the first level, and
  \<open>object_man.start\<close>, which sets \<open>ObjectManager.started\<close> and runs the first animation
  frame at once. What these do to the state is given by the parameters \<open>advance\<close> and
  \<open>frame\<close>. \<open>end\<close> is a keyword of Isabelle, so \<open>Game.end\<close> is \<open>end_game\<close>.
\<close>

definition object_man_stop :: "'a lifecycle_scheme \<Rightarrow> 'a lifecycle_scheme" where
  "object_man_stop g = g\<lparr>object_man_started := False\<rparr>"

definition object_man_start ::
  "('a lifecycle_scheme \<Rightarrow> 'a lifecycle_scheme) \<Rightarrow> int \<Rightarrow> 'a lifecycle_scheme
   \<Rightarrow> 'a lifecycle_scheme" where
  "object_man_start frame frame_rate g =
     (if \<not> object_man_started g \<and> frame_rate \<ge> 0
      then frame (g\<lparr>object_man_started := True\<rparr>)
      else g)"

definition getLevelNum :: "'a lifecycle_scheme \<Rightarrow> int" where
  "getLevelNum g = level g + 1"

definition start ::
  "('a lifecycle_scheme \<Rightarrow> 'a lifecycle_scheme) \<Rightarrow> ('a lifecycle_scheme \<Rightarrow> 'a lifecycle_scheme)
   \<Rightarrow> 'a lifecycle_scheme \<Rightarrow> 'a lifecycle_scheme" where
  "start advance frame g =
     (if \<not> started g \<and> \<not> finished g \<and> \<not> player_dead g then
        (let g1 = (if getLevelNum g < 1 then advance g else g);
             g2 = object_man_start frame FRAME_RATE g1
         in g2\<lparr>started := True\<rparr>)
      else g)"

definition pause :: "'a lifecycle_scheme \<Rightarrow> 'a lifecycle_scheme" where
  "pause g =
     (if started g \<and> \<not> finished g \<and> \<not> player_dead g
      then object_man_stop (g\<lparr>started := False\<rparr>)
      else g)"

definition end_game :: "'a lifecycle_scheme \<Rightarrow> 'a lifecycle_scheme" where
  "end_game g = (if started g then (pause g)\<lparr>finished := True\<rparr> else g)"

text \<open>The calls a host can make on a game between two restarts.\<close>

datatype lifecycle_call = Start | Pause | End

fun call_game ::
  "('a lifecycle_scheme \<Rightarrow> 'a lifecycle_scheme) \<Rightarrow> ('a lifecycle_scheme \<Rightarrow> 'a lifecycle_scheme)
   \<Rightarrow> lifecycle_call \<Rightarrow> 'a lifecycle_scheme \<Rightarrow> 'a lifecycle_scheme" where
  "call_game advance frame Start g = start advance frame g"
| "call_game advance frame Pause g = pause g"
| "call_game advance frame End g = end_game g"

fun call_all ::
  "('a lifecycle_scheme \<Rightarrow> 'a lifecycle_scheme) \<Rightarrow> ('a lifecycle_scheme \<Rightarrow> 'a lifecycle_scheme)
   \<Rightarrow> lifecycle_call list \<Rightarrow> 'a lifecycle_scheme \<Rightarrow> 'a lifecycle_scheme" where
  "call_all advance frame [] g = g"
| "call_all advance frame (c # cs) g = call_all advance frame cs (call_game advance frame c g)"

subsection \<open>The handler of eat events\<close>

text \<open>
  \<open>onEat\<close> returns \<open>false\<close> after a win and nothing otherwise. The fractions \<open>0.5\<close>,
  \<open>0.2\<close> and \<open>0.1\<close> are exact rationals here; for the speed levels 1 to 5 the values that
  \<open>Math.ceil\<close> and \<open>Math.floor\<close> round are the same in binary floating point.
\<close>

definition length_ok :: "Snake \<Rightarrow> bool" where
  "length_ok s = (case length_cfg s of None \<Rightarrow> True | Some l \<Rightarrow> MIN_LENGTH \<le> l)"

text \<open>
  The points added to the score and the growth of the Player for an eaten object of class
  \<open>c\<close> at game speed \<open>sp\<close>: the mouse gives the basic score, the grain a fifth of it, the
  rat ten times as much; any other sender adds nothing to the score.
\<close>

definition eat_points :: "obj_class \<Rightarrow> rat \<Rightarrow> rat \<times> int" where
  "eat_points c sp =
     (let basic_score = sp * 3;
          basic_growth_offset = \<lceil>sp * (1 / 2)\<rceil>
      in if c = Mouse_class then (basic_score, basic_growth_offset)
         else if c = Grain_class then
           (of_int \<lceil>(1 / 5) * basic_score\<rceil>,
            \<lceil>(1 / 5) * (of_int basic_growth_offset :: rat)\<rceil>)
         else if c = Rat_class then
           (10 * basic_score,
            \<lfloor>(1 / 10) * (of_int basic_growth_offset :: rat)\<rfloor> + basic_growth_offset)
         else (0, basic_growth_offset))"

definition onEat ::
  "entity \<Rightarrow> int \<Rightarrow> int \<Rightarrow> Game \<Rightarrow> completion \<times> Game \<times> effect list" where
  "onEat sndr x y g =
     (case object_man_remove sndr g of (_, g1, out1) \<Rightarrow>
        (case snake g1 of
           None \<Rightarrow> (Return_other, g1, out1)
         | Some s \<Rightarrow>
             (case eat_points (cls sndr) (Game_getSpeed g1) of (points, growth_offset) \<Rightarrow>
                (let out2 = out1 @ [Trigger ''alloc'' (Obj (self s)) (Coord x y) None];
                     g2 = g1\<lparr>score := score g1 + points\<rparr>
                 in case setLength (Some (getLength s + growth_offset)) s of
                      (Some e, s', out3) \<Rightarrow> (Throw e, g2\<lparr>snake := Some s'\<rparr>, out2 @ out3)
                    | (None, s', out3) \<Rightarrow>
                        (let g3 = g2\<lparr>snake := Some s'\<rparr>;
                             out4 = out2 @ out3 @ [Trigger ''score'' Game_sender No_data None]
                         in if getCount g3 Rat_class \<noteq> 0 \<or> getCount g3 Grain_class \<noteq> 0
                               \<or> getCount g3 Mouse_class \<noteq> 0
                            then (Return_other, g3, out4)
                            else if getLevelNum g3 = levels_count g3
                            then (Return_false, end_game g3,
                                  out4 @ [Trigger ''gameover'' Game_sender (Win True) None])
                            else (Return_other, g3,
                                  out4 @ [Trigger ''level'' Game_sender No_data None]))))))"

text \<open>
  The game as the driver constructs it (speed 3, three lives), and the same game with a
  mouse and a grain on the board; used as concrete states below.
\<close>

definition driver_game :: Game where
  "driver_game = fst (snd (new_Game 0 3 3))"

definition driver_game_with_prey :: Game where
  "driver_game_with_prey =
     snd (object_man_add (Entity 2 Grain_class)
       (snd (object_man_add (Entity 1 Mouse_class) (driver_game\<lparr>next_ident := 3\<rparr>))))"

subsection \<open>Generating the objects of a level\<close>






text \<open>
  The second loop works on the board. \<open>this.boundaries\<close> holds the width and the height
  of the canvas; the constructor of the game sets it and nothing writes it afterwards, so
  it is an argument here. Every object has the default block size.

  A round of the \<open>do ... while\<close> loop draws a cell and asks the grid whether it is taken.
  The results of \<open>Math.random()\<close> in these rounds are the input \<open>rnd\<close>: round \<open>k\<close> of the
  search, counted from the start of the call, uses the pair \<open>rnd k\<close> (its first number
  for \<open>start_x\<close>, its second for \<open>start_y\<close>; \<open>genNumber\<close> draws nothing when the board is
  one block wide or high). The loop has no bound: it runs for as long as the cells drawn
  are taken, so it is a partial function.
\<close>

record boundaries =
  width :: int
  height :: int

definition DEFAULT_block_size :: int where "DEFAULT_block_size = 10"

partial_function (option) find_free ::
  "int \<Rightarrow> int \<Rightarrow> int \<Rightarrow> (nat \<Rightarrow> rat \<times> rat) \<Rightarrow> 'a Game_scheme \<Rightarrow> nat
   \<Rightarrow> ((int \<times> int) \<times> nat) option"
where
  "find_free block_size block_seg_x block_seg_y rnd g k =
     (let start_x = genNumber (fst (rnd k)) 0 (block_seg_x - 1) * block_size;
          start_y = genNumber (snd (rnd k)) 0 (block_seg_y - 1) * block_size
      in if getAllocObj g start_x start_y \<noteq> None
         then find_free block_size block_seg_x block_seg_y rnd g (k + 1)
         else Some ((start_x, start_y), k + 1))"






definition drawn :: "boundaries \<Rightarrow> (nat \<Rightarrow> rat \<times> rat) \<Rightarrow> nat \<Rightarrow> int \<times> int" where
  "drawn bnd rnd n =
     (genNumber (fst (rnd n)) 0 (width bnd div DEFAULT_block_size - 1) * DEFAULT_block_size,
      genNumber (snd (rnd n)) 0 (height bnd div DEFAULT_block_size - 1) * DEFAULT_block_size)"

definition free_cell :: "'a Game_scheme \<Rightarrow> int \<times> int \<Rightarrow> bool" where
  "free_cell g pos = (getAllocObj g (fst pos) (snd pos) = None)"






section \<open>Slither.Core.ObjectManager: the frame handler\<close>

text \<open>
  What \<open>handleFrames\<close> reads of a game object: whether it has the methods \<open>draw\<close> and
  \<open>getSpeed\<close>, what \<open>getSpeed()\<close> returns, and its counter of skipped frames.
  The result says whether \<open>obj.draw()\<close> was called.
\<close>

record frame_object =
  has_draw :: bool
  has_getSpeed :: bool
  getSpeed_result :: rat
  frame_skip_ctr :: "int option"

definition handleFrames :: "frame_object \<Rightarrow> js_error + (frame_object \<times> bool)" where
  "handleFrames obj =
     (if \<not> has_draw obj \<or> \<not> has_getSpeed obj then Inr (obj, False)
      else
        (let frame_diff =
               of_int (Math_round (of_int FRAME_RATE / of_int SpeedLevels_Max)) * getSpeed_result obj
                 - of_int FRAME_RATE
         in if \<bar>frame_diff\<bar> \<ge> of_int FRAME_RATE
            then Inl (Error ''Slither expects a higher frame rate; try 30fps or better.'')
            else
              (let frame_count =
                     Math_round (of_int FRAME_RATE / (of_int FRAME_RATE - \<bar>frame_diff\<bar>))
               in if frame_diff < 0 then
                    (let ctr = (case frame_skip_ctr obj of None \<Rightarrow> 0 | Some c \<Rightarrow> c) + 1
                     in if ctr \<le> frame_count
                        then Inr (obj\<lparr>frame_skip_ctr := Some ctr\<rparr>, False)
                        else Inr (obj\<lparr>frame_skip_ctr := Some 0\<rparr>, True))
                  else Inr (obj, True))))"

fun ObjectManager_draw :: "frame_object list \<Rightarrow> js_error + (frame_object \<times> bool) list" where
  "ObjectManager_draw [] = Inr []"
| "ObjectManager_draw (obj # objs) =
     (case handleFrames obj of
        Inl e \<Rightarrow> Inl e
      | Inr r \<Rightarrow> (case ObjectManager_draw objs of Inl e \<Rightarrow> Inl e | Inr rs \<Rightarrow> Inr (r # rs)))"


section \<open>Properties of the event manager\<close>

subsection \<open>Searching and registering\<close>

lemma searchLoop_range: "0 \<le> i \<Longrightarrow> searchLoop hs f ow i = - 1 \<or> i \<le> searchLoop hs f ow i"
  by (induction hs f ow i rule: searchLoop.induct) auto

lemma searchLoop_miss:
  "0 \<le> i \<Longrightarrow> searchLoop hs f ow i = - 1 \<Longrightarrow> h \<in> set hs \<Longrightarrow>
     \<not> (callback h = f \<and> (ow = None \<or> owner h = ow))"
  by (induction hs f ow i rule: searchLoop.induct) (auto split: if_splits)

lemma searchLoop_hit:
  "0 \<le> i \<Longrightarrow> h \<in> set hs \<Longrightarrow> callback h = f \<Longrightarrow> ow = None \<or> owner h = ow \<Longrightarrow>
     searchLoop hs f ow i \<noteq> - 1"
  by (induction hs f ow i rule: searchLoop.induct) (auto split: if_splits)

lemma register_True:
  assumes "register w t (Function f) s = (True, w1)"
  shows "\<exists>hs. (events w t = None \<and> hs = [] \<or> events w t = Some hs) \<and>
             searchLoop hs f s 0 = - 1 \<and>
             w1 = w\<lparr>events := (events w)(t \<mapsto> hs @ [\<lparr>callback = f, owner = s\<rparr>])\<rparr>"
  using assms
  by (auto simp: register_def searchForCallback_def Let_def split: if_splits option.splits)

lemma register_dup:
  assumes "events w t = Some hs" and "h \<in> set hs" and "callback h = f" and "s = None \<or> owner h = s"
  shows "register w t (Function f) s = (False, w)"
  using assms searchLoop_hit[of 0 h hs f s]
  by (auto simp: register_def searchForCallback_def Let_def)


subsection \<open>Dispatch over a handler list that the callbacks leave alone\<close>

lemma trigger_loop_dispatch:
  assumes frame: "keeps_handlers call t"
  shows "events w t = Some hs \<Longrightarrow> i \<le> length hs \<Longrightarrow>
    trigger_loop call t s d tgt i fired w = Some (dispatch call s d tgt i (drop i hs) fired w)"
proof (induction "length hs - i" arbitrary: i fired w)
  case 0
  then show ?case by (subst trigger_loop.simps) simp
next
  case (Suc n)
  then have lt: "i < length hs" by simp
  have dr: "drop i hs = hs ! i # drop (Suc i) hs"
    using lt by (simp add: Cons_nth_drop_Suc)
  have n: "n = length hs - Suc i" using Suc.hyps(2) by simp
  have keep: "events (snd (call f ow s d w)) t = Some hs" for f ow
    using frame Suc.prems(1) by (simp add: keeps_handlers_def)
  show ?case
  proof (cases "tgt \<noteq> None \<and> tgt \<noteq> owner (hs ! i)")
    case True
    have "trigger_loop call t s d tgt (Suc i) fired w =
            Some (dispatch call s d tgt (Suc i) (drop (Suc i) hs) fired w)"
      using Suc.hyps(1)[OF n Suc.prems(1)] lt by simp
    then show ?thesis
      using True lt Suc.prems(1) by (subst trigger_loop.simps) (simp add: dr Let_def)
  next
    case False
    obtain r w' where c: "call (callback (hs ! i)) (owner (hs ! i)) s d w = (r, w')"
      by (cases "call (callback (hs ! i)) (owner (hs ! i)) s d w")
    have ev': "events w' t = Some hs"
      using keep[of "callback (hs ! i)" "owner (hs ! i)"] c by simp
    have ih: "trigger_loop call t s d tgt (Suc i) fired' w' =
            Some (dispatch call s d tgt (Suc i) (drop (Suc i) hs) fired' w')" for fired'
      using Suc.hyps(1)[OF n ev'] lt by simp
    show ?thesis
      using False lt Suc.prems(1) c ih
      by (subst trigger_loop.simps) (cases r; auto simp add: dr Let_def)
  qed
qed

lemma trigger_dispatch:
  assumes "keeps_handlers call t" and "events w t = Some hs"
  shows "trigger call t s d tgt w = Some (dispatch call s d tgt 0 hs [] w)"
  using trigger_loop_dispatch[OF assms, of 0] assms(2) by (simp add: trigger_def)

lemma dispatch_keeps:
  assumes "keeps_handlers call t"
  shows "dispatch call s d tgt i hs fired w = (out, fired', w') \<Longrightarrow> events w' t = events w t"
proof (induction hs arbitrary: i fired w)
  case Nil
  then show ?case by simp
next
  case (Cons h hs)
  show ?case
  proof (cases "tgt \<noteq> None \<and> tgt \<noteq> owner h")
    case True
    then show ?thesis using Cons by simp
  next
    case False
    obtain r w1 where c: "call (callback h) (owner h) s d w = (r, w1)"
      by (cases "call (callback h) (owner h) s d w")
    have k: "events w1 t = events w t"
      using assms c by (metis keeps_handlers_def snd_conv)
    show ?thesis
      using False c k Cons by (cases r) auto
  qed
qed

lemma dispatch_acc:
  "dispatch call s d tgt i hs fired w =
     (case dispatch call s d tgt i hs [] w of (out, new, w') \<Rightarrow> (out, fired @ new, w'))"
proof (induction hs arbitrary: i fired w)
  case Nil
  then show ?case by simp
next
  case (Cons h hs)
  obtain r w1 where c: "call (callback h) (owner h) s d w = (r, w1)"
    by (cases "call (callback h) (owner h) s d w")
  show ?case
  proof (cases "tgt \<noteq> None \<and> tgt \<noteq> owner h")
    case True
    then show ?thesis using Cons[of "i + 1" fired w] by simp
  next
    case False
    show ?thesis
    proof (cases r)
      case Return_other
      then show ?thesis
        using False c Cons[of "i + 1" "fired @ [(i, h, Return_other)]" w1]
          Cons[of "i + 1" "[(i, h, Return_other)]" w1]
        by (auto split: prod.splits)
    qed (use False c in auto)
  qed
qed

lemma dispatch_Cons_cases:
  assumes "dispatch call s d tgt i (h # hs) [] w = (out, new, w')"
  obtains (skip) "tgt \<noteq> None" "tgt \<noteq> owner h" "dispatch call s d tgt (Suc i) hs [] w = (out, new, w')"
  | (stop) r where "tgt = None \<or> tgt = owner h" "call (callback h) (owner h) s d w = (r, w')"
      "r \<noteq> Return_other" "new = [(i, h, r)]"
  | (go) w1 new' where "tgt = None \<or> tgt = owner h"
      "call (callback h) (owner h) s d w = (Return_other, w1)"
      "dispatch call s d tgt (Suc i) hs [] w1 = (out, new', w')" "new = (i, h, Return_other) # new'"
proof -
  obtain r w1 where c: "call (callback h) (owner h) s d w = (r, w1)"
    by (cases "call (callback h) (owner h) s d w")
  show ?thesis
  proof (cases "tgt \<noteq> None \<and> tgt \<noteq> owner h")
    case True
    then show ?thesis using assms skip by simp
  next
    case False
    show ?thesis
    proof (cases r)
      case Return_other
      obtain out2 new2 w2 where d2: "dispatch call s d tgt (Suc i) hs [] w1 = (out2, new2, w2)"
        by (cases "dispatch call s d tgt (Suc i) hs [] w1")
      have "dispatch call s d tgt (Suc i) hs [(i, h, Return_other)] w1 =
              (out2, (i, h, Return_other) # new2, w2)"
        using dispatch_acc[of call s d tgt "Suc i" hs "[(i, h, Return_other)]" w1] d2 by simp
      then show ?thesis
        using False c Return_other assms d2 go[of w1 new2] by auto
    next
      case Return_false
      then show ?thesis using False c assms stop[of r] by auto
    next
      case (Throw e)
      then show ?thesis using False c assms stop[of r] by auto
    qed
  qed
qed

lemma dispatch_entries:
  "dispatch call s d tgt i hs [] w = (out, new, w') \<Longrightarrow> e \<in> set new \<Longrightarrow>
     i \<le> fst e \<and> fst e < i + length hs \<and> fst (snd e) = hs ! (fst e - i)"
proof (induction hs arbitrary: i w new)
  case Nil
  then show ?case by simp
next
  case (Cons h hs)
  from Cons.prems(1) show ?case
  proof (cases rule: dispatch_Cons_cases)
    case skip
    from Cons.IH[OF skip(3) Cons.prems(2)] show ?thesis
      by (auto simp: nth_Cons')
  next
    case (stop r)
    then show ?thesis using Cons.prems(2) by simp
  next
    case (go w1 new')
    show ?thesis
    proof (cases "e = (i, h, Return_other)")
      case True
      then show ?thesis by simp
    next
      case False
      then have "e \<in> set new'" using go(4) Cons.prems(2) by simp
      from Cons.IH[OF go(3) this] show ?thesis
        by (auto simp: nth_Cons')
    qed
  qed
qed

lemma dispatch_sorted:
  "dispatch call s d tgt i hs [] w = (out, new, w') \<Longrightarrow> sorted_wrt (<) (map fst new)"
proof (induction hs arbitrary: i w new)
  case Nil
  then show ?case by simp
next
  case (Cons h hs)
  from Cons.prems(1) show ?case
  proof (cases rule: dispatch_Cons_cases)
    case skip
    then show ?thesis using Cons.IH by blast
  next
    case (stop r)
    then show ?thesis by simp
  next
    case (go w1 new')
    have "\<forall>e\<in>set new'. i < fst e"
      using dispatch_entries[OF go(3)] by fastforce
    then show ?thesis using go(4) Cons.IH[OF go(3)] by auto
  qed
qed

lemma dispatch_butlast:
  "dispatch call s d tgt i hs [] w = (out, new, w') \<Longrightarrow> e \<in> set (butlast new) \<Longrightarrow>
     snd (snd e) = Return_other"
proof (induction hs arbitrary: i w new)
  case Nil
  then show ?case by simp
next
  case (Cons h hs)
  from Cons.prems(1) show ?case
  proof (cases rule: dispatch_Cons_cases)
    case skip
    then show ?thesis using Cons.IH Cons.prems(2) by blast
  next
    case (stop r)
    then show ?thesis using Cons.prems(2) by simp
  next
    case (go w1 new')
    then show ?thesis using Cons.IH[OF go(3)] Cons.prems(2)
      by (auto split: if_splits)
  qed
qed

lemma dispatch_complete:
  "dispatch call s d tgt i hs [] w = (out, new, w') \<Longrightarrow>
   \<forall>e\<in>set new. snd (snd e) = Return_other \<Longrightarrow>
   i \<le> j \<Longrightarrow> j < i + length hs \<Longrightarrow> tgt = None \<or> tgt = owner (hs ! (j - i)) \<Longrightarrow>
   j \<in> fst ` set new"
proof (induction hs arbitrary: i w new)
  case Nil
  then show ?case by simp
next
  case (Cons h hs)
  from Cons.prems(1) show ?case
  proof (cases rule: dispatch_Cons_cases)
    case skip
    have ne: "j \<noteq> i" using skip(1,2) Cons.prems(5) by auto
    then have "tgt = None \<or> tgt = owner (hs ! (j - Suc i))"
      using Cons.prems(3,5) by (auto simp: nth_Cons')
    from Cons.IH[OF skip(3) Cons.prems(2) _ _ this] ne Cons.prems(3,4)
    show ?thesis by simp
  next
    case (stop r)
    then show ?thesis using Cons.prems(2) by simp
  next
    case (go w1 new')
    show ?thesis
    proof (cases "j = i")
      case True
      then show ?thesis using go(4) by simp
    next
      case False
      then have t: "tgt = None \<or> tgt = owner (hs ! (j - Suc i))"
        using Cons.prems(3,5) by (auto simp: nth_Cons')
      have "\<forall>e\<in>set new'. snd (snd e) = Return_other" using Cons.prems(2) go(4) by simp
      from Cons.IH[OF go(3) this _ _ t] False Cons.prems(3,4)
      have "j \<in> fst ` set new'" by simp
      then show ?thesis using go(4) by auto
    qed
  qed
qed

lemma dispatch_untargeted:
  "dispatch call s d None i hs [] w = (out, new, w') \<Longrightarrow>
     map fst new = [i..<i + length new] \<and> map (fst \<circ> snd) new = take (length new) hs \<and>
     (length new < length hs \<longrightarrow> new \<noteq> [] \<and> snd (snd (last new)) \<noteq> Return_other)"
proof (induction hs arbitrary: i w new)
  case Nil
  then show ?case by simp
next
  case (Cons h hs)
  from Cons.prems(1) show ?case
  proof (cases rule: dispatch_Cons_cases)
    case skip
    then show ?thesis by simp
  next
    case (stop r)
    then show ?thesis by simp
  next
    case (go w1 new')
    from Cons.IH[OF go(3)] show ?thesis
      using go(4) by (auto simp: upt_rec[of i])
  qed
qed

lemma filter_key_le_1:
  "distinct (map fst xs) \<Longrightarrow> length (filter (\<lambda>e. fst e = k) xs) \<le> Suc 0"
proof (induction xs)
  case Nil
  then show ?case by simp
next
  case (Cons x xs)
  show ?case
  proof (cases "fst x = k")
    case True
    have "fst x \<notin> fst ` set xs" using Cons.prems by simp
    then have "\<forall>e\<in>set xs. fst e \<noteq> k" using True by (metis imageI)
    then have "filter (\<lambda>e. fst e = k) xs = []"
      by (simp add: filter_empty_conv)
    then show ?thesis using True by simp
  next
    case False
    then show ?thesis using Cons by simp
  qed
qed

lemma sorted_wrt_less_distinct: "sorted_wrt (<) (ks :: nat list) \<Longrightarrow> distinct ks"
  by (induction ks) auto


lemma dispatch_false_last:
  "dispatch call s d tgt i hs [] w = (out, new, w') \<Longrightarrow> (k, h, Return_false) \<in> set new \<Longrightarrow>
     e \<in> set new \<Longrightarrow> fst e \<le> k"
proof (induction hs arbitrary: i w new)
  case Nil
  then show ?case by simp
next
  case (Cons h0 hs)
  from Cons.prems(1) show ?case
  proof (cases rule: dispatch_Cons_cases)
    case skip
    then show ?thesis using Cons.IH Cons.prems(2,3) by blast
  next
    case (stop r)
    then show ?thesis using Cons.prems(2,3) by auto
  next
    case (go w1 new')
    have m: "(k, h, Return_false) \<in> set new'" using go(4) Cons.prems(2) by simp
    have "Suc i \<le> k" using dispatch_entries[OF go(3) m] by simp
    then show ?thesis using Cons.IH[OF go(3) m] go(4) Cons.prems(3) by auto
  qed
qed


text \<open>
  Claim C2 (idempotent registration), as stated, fails in its last part: after a
  successful \<open>register(t, f, s)\<close> and its rejected repetition, a \<open>trigger(t, ...)\<close> need
  not call \<open>f\<close> exactly once. When a handler registered before returns \<open>false\<close>, the
  loop of \<open>trigger\<close> ends there and \<open>f\<close> is not called at all. When \<open>f\<close> was registered
  before without owner, the search with an owner does not see that registration, the
  registration with owner \<open>s\<close> succeeds, and \<open>f\<close> is called twice.
\<close>

theorem register_twice_not_once_counterexample:
  "register \<lparr>events = [''eat'' \<mapsto> [\<lparr>callback = 0::nat, owner = None\<rparr>]]\<rparr> ''eat''
      (Function 7) (Some (1::nat)) =
     (True, \<lparr>events = [''eat'' \<mapsto> [\<lparr>callback = 0, owner = None\<rparr>,
                                       \<lparr>callback = 7, owner = Some 1\<rparr>]]\<rparr>) \<and>
   register \<lparr>events = [''eat'' \<mapsto> [\<lparr>callback = 0::nat, owner = None\<rparr>,
                                   \<lparr>callback = 7, owner = Some (1::nat)\<rparr>]]\<rparr> ''eat''
      (Function 7) (Some 1) =
     (False, \<lparr>events = [''eat'' \<mapsto> [\<lparr>callback = 0, owner = None\<rparr>,
                                        \<lparr>callback = 7, owner = Some 1\<rparr>]]\<rparr>) \<and>
   trigger (\<lambda>f ow (sender::unit) (data::unit) (w::(nat, nat) EventManager).
              (if f = 0 then Return_false else Return_other, w))
      ''eat'' () () None
      \<lparr>events = [''eat'' \<mapsto> [\<lparr>callback = 0::nat, owner = None\<rparr>,
                               \<lparr>callback = 7, owner = Some (1::nat)\<rparr>]]\<rparr> =
     Some (Completed, [(0, \<lparr>callback = 0, owner = None\<rparr>, Return_false)],
           \<lparr>events = [''eat'' \<mapsto> [\<lparr>callback = 0, owner = None\<rparr>,
                                    \<lparr>callback = 7, owner = Some 1\<rparr>]]\<rparr>) \<and>
   register \<lparr>events = [''eat'' \<mapsto> [\<lparr>callback = 7::nat, owner = None\<rparr>]]\<rparr> ''eat''
      (Function 7) (Some (1::nat)) =
     (True, \<lparr>events = [''eat'' \<mapsto> [\<lparr>callback = 7, owner = None\<rparr>,
                                       \<lparr>callback = 7, owner = Some 1\<rparr>]]\<rparr>) \<and>
   register \<lparr>events = [''eat'' \<mapsto> [\<lparr>callback = 7::nat, owner = None\<rparr>,
                                   \<lparr>callback = 7, owner = Some (1::nat)\<rparr>]]\<rparr> ''eat''
      (Function 7) (Some 1) =
     (False, \<lparr>events = [''eat'' \<mapsto> [\<lparr>callback = 7, owner = None\<rparr>,
                                        \<lparr>callback = 7, owner = Some 1\<rparr>]]\<rparr>) \<and>
   trigger (\<lambda>f ow (sender::unit) (data::unit) (w::(nat, nat) EventManager). (Return_other, w))
      ''eat'' () () None
      \<lparr>events = [''eat'' \<mapsto> [\<lparr>callback = 7::nat, owner = None\<rparr>,
                               \<lparr>callback = 7, owner = Some (1::nat)\<rparr>]]\<rparr> =
     Some (Completed, [(0, \<lparr>callback = 7, owner = None\<rparr>, Return_other),
                       (1, \<lparr>callback = 7, owner = Some 1\<rparr>, Return_other)],
           \<lparr>events = [''eat'' \<mapsto> [\<lparr>callback = 7, owner = None\<rparr>,
                                    \<lparr>callback = 7, owner = Some 1\<rparr>]]\<rparr>)"
proof -
  let ?stop = "\<lambda>f ow (sender::unit) (data::unit) (w::(nat, nat) EventManager).
              (if f = (0::nat) then Return_false else Return_other, w)"
  let ?go = "\<lambda>f ow (sender::unit) (data::unit) (w::(nat, nat) EventManager). (Return_other, w)"
  let ?a = "[\<lparr>callback = 0::nat, owner = None\<rparr>, \<lparr>callback = 7, owner = Some (1::nat)\<rparr>]"
  let ?b = "[\<lparr>callback = 7::nat, owner = None\<rparr>, \<lparr>callback = 7, owner = Some (1::nat)\<rparr>]"
  have r1: "register \<lparr>events = [''eat'' \<mapsto> [\<lparr>callback = 0::nat, owner = None\<rparr>]]\<rparr> ''eat''
      (Function 7) (Some (1::nat)) = (True, \<lparr>events = [''eat'' \<mapsto> ?a]\<rparr>)"
    by (simp add: register_def searchForCallback_def)
  have r2: "register \<lparr>events = [''eat'' \<mapsto> ?a]\<rparr> ''eat'' (Function 7) (Some 1) =
      (False, \<lparr>events = [''eat'' \<mapsto> ?a]\<rparr>)"
    by (simp add: register_def searchForCallback_def)
  have f1: "keeps_handlers ?stop ''eat''" by (simp add: keeps_handlers_def)
  have t1: "trigger ?stop ''eat'' () () None \<lparr>events = [''eat'' \<mapsto> ?a]\<rparr> =
      Some (Completed, [(0, \<lparr>callback = 0, owner = None\<rparr>, Return_false)],
            \<lparr>events = [''eat'' \<mapsto> ?a]\<rparr>)"
    by (subst trigger_dispatch[OF f1, of _ ?a]) simp_all
  have r3: "register \<lparr>events = [''eat'' \<mapsto> [\<lparr>callback = 7::nat, owner = None\<rparr>]]\<rparr> ''eat''
      (Function 7) (Some (1::nat)) = (True, \<lparr>events = [''eat'' \<mapsto> ?b]\<rparr>)"
    by (simp add: register_def searchForCallback_def)
  have r4: "register \<lparr>events = [''eat'' \<mapsto> ?b]\<rparr> ''eat'' (Function 7) (Some 1) =
      (False, \<lparr>events = [''eat'' \<mapsto> ?b]\<rparr>)"
    by (simp add: register_def searchForCallback_def)
  have f2: "keeps_handlers ?go ''eat''" by (simp add: keeps_handlers_def)
  have t2: "trigger ?go ''eat'' () () None \<lparr>events = [''eat'' \<mapsto> ?b]\<rparr> =
      Some (Completed, [(0, \<lparr>callback = 7, owner = None\<rparr>, Return_other),
                        (1, \<lparr>callback = 7, owner = Some 1\<rparr>, Return_other)],
            \<lparr>events = [''eat'' \<mapsto> ?b]\<rparr>)"
    by (subst trigger_dispatch[OF f2, of _ ?b]) simp_all
  show ?thesis by (intro conjI r1 r2 t1 r3 r4 t2)
qed

text \<open>
  Claim C2, amended. When \<open>register(t, f, s)\<close> has succeeded, the same call made again
  returns \<open>false\<close> and leaves the event manager (hence the handler list) as it was. In a
  following \<open>trigger(t, ...)\<close> whose callbacks do not edit the handler list of \<open>t\<close>, the
  handler \<open>(f, s)\<close> is never called twice; it is called exactly once when the trigger is
  not targeted at another owner and every other handler that is called returns something
  other than \<open>false\<close> (and does not throw), so that the chain is not cut before it is
  reached. When \<open>f\<close> is registered for \<open>t\<close> under no other owner, these calls of the
  handler \<open>(f, s)\<close> are all the calls of \<open>f\<close>.
\<close>

theorem register_twice_fires_once:
  assumes reg: "register w t (Function f) s = (True, w1)"
  shows "register w1 t (Function f) s = (False, w1) \<and>
    (keeps_handlers call t \<longrightarrow>
      (\<exists>out fired w2. trigger call t sender data target_only w1 = Some (out, fired, w2) \<and>
         length (filter (\<lambda>e. fst (snd e) = \<lparr>callback = f, owner = s\<rparr>) fired) \<le> 1 \<and>
         ((target_only = None \<or> target_only = s) \<and>
          (\<forall>e\<in>set fired. fst (snd e) \<noteq> \<lparr>callback = f, owner = s\<rparr> \<longrightarrow> snd (snd e) = Return_other)
          \<longrightarrow> length (filter (\<lambda>e. fst (snd e) = \<lparr>callback = f, owner = s\<rparr>) fired) = 1) \<and>
         ((\<forall>hs h. events w1 t = Some hs \<and> h \<in> set hs \<and> callback h = f \<longrightarrow> owner h = s) \<longrightarrow>
          filter (\<lambda>e. callback (fst (snd e)) = f) fired =
            filter (\<lambda>e. fst (snd e) = \<lparr>callback = f, owner = s\<rparr>) fired)))"
proof -
  define H where "H = \<lparr>callback = f, owner = s\<rparr>"
  from register_True[OF reg] obtain hs where
    miss: "searchLoop hs f s 0 = - 1" and
    w1: "w1 = w\<lparr>events := (events w)(t \<mapsto> hs @ [H])\<rparr>" by (auto simp: H_def)
  have e1: "events w1 t = Some (hs @ [H])" unfolding w1 by simp
  have Hnew: "H \<notin> set hs"
    using searchLoop_miss[OF _ miss, of H] by (auto simp: H_def)
  have again: "register w1 t (Function f) s = (False, w1)"
    by (rule register_dup[OF e1, of H]) (simp_all add: H_def)
  have trig: "\<exists>out fired w2. trigger call t sender data target_only w1 = Some (out, fired, w2) \<and>
         length (filter (\<lambda>e. fst (snd e) = H) fired) \<le> 1 \<and>
         ((target_only = None \<or> target_only = s) \<and>
          (\<forall>e\<in>set fired. fst (snd e) \<noteq> H \<longrightarrow> snd (snd e) = Return_other)
          \<longrightarrow> length (filter (\<lambda>e. fst (snd e) = H) fired) = 1) \<and>
         ((\<forall>hs h. events w1 t = Some hs \<and> h \<in> set hs \<and> callback h = f \<longrightarrow> owner h = s) \<longrightarrow>
          filter (\<lambda>e. callback (fst (snd e)) = f) fired = filter (\<lambda>e. fst (snd e) = H) fired)"
    if frame: "keeps_handlers call t"
  proof -
    obtain out fired w2 where
      d: "dispatch call sender data target_only 0 (hs @ [H]) [] w1 = (out, fired, w2)"
      by (cases "dispatch call sender data target_only 0 (hs @ [H]) [] w1")
    have tr: "trigger call t sender data target_only w1 = Some (out, fired, w2)"
      using trigger_dispatch[OF frame e1] d by simp
    have ent: "fst e < Suc (length hs) \<and> fst (snd e) = (hs @ [H]) ! fst e" if "e \<in> set fired" for e
      using dispatch_entries[OF d that] by simp
    have key: "fst (snd e) = H \<longleftrightarrow> fst e = length hs" if "e \<in> set fired" for e
    proof (cases "fst e < length hs")
      case True
      then have "fst (snd e) \<in> set hs" using ent[OF that] by (simp add: nth_append)
      then show ?thesis using Hnew True by auto
    next
      case False
      then have "fst e = length hs" using ent[OF that] by simp
      then show ?thesis using ent[OF that] by simp
    qed
    have feq: "filter (\<lambda>e. fst (snd e) = H) fired = filter (\<lambda>e. fst e = length hs) fired"
      by (rule filter_cong) (simp_all add: key)
    have dist: "distinct (map fst fired)"
      using dispatch_sorted[OF d] by (rule sorted_wrt_less_distinct)
    have le: "length (filter (\<lambda>e. fst (snd e) = H) fired) \<le> 1"
      unfolding feq using filter_key_le_1[OF dist] by simp
    have one: "length (filter (\<lambda>e. fst (snd e) = H) fired) = 1"
      if adm: "target_only = None \<or> target_only = s"
        and oth: "\<forall>e\<in>set fired. fst (snd e) \<noteq> H \<longrightarrow> snd (snd e) = Return_other"
    proof -
      have "length hs \<in> fst ` set fired"
      proof (rule ccontr)
        assume no: "length hs \<notin> fst ` set fired"
        then have "\<forall>e\<in>set fired. fst (snd e) \<noteq> H" using key by force
        then have all: "\<forall>e\<in>set fired. snd (snd e) = Return_other" using oth by blast
        have "target_only = None \<or> target_only = owner ((hs @ [H]) ! (length hs - 0))"
          using adm by (simp add: H_def)
        from dispatch_complete[OF d all _ _ this] have "length hs \<in> fst ` set fired" by simp
        then show False using no by simp
      qed
      then have "filter (\<lambda>e. fst e = length hs) fired \<noteq> []"
        by (force simp: filter_empty_conv)
      then have "length (filter (\<lambda>e. fst e = length hs) fired) \<ge> 1"
        by (cases "filter (\<lambda>e. fst e = length hs) fired") simp_all
      then show ?thesis using le feq by simp
    qed
    have only: "filter (\<lambda>e. callback (fst (snd e)) = f) fired = filter (\<lambda>e. fst (snd e) = H) fired"
      if sc: "\<forall>hs h. events w1 t = Some hs \<and> h \<in> set hs \<and> callback h = f \<longrightarrow> owner h = s"
    proof (rule filter_cong[OF refl])
      fix e assume e: "e \<in> set fired"
      have mem: "fst (snd e) \<in> set (hs @ [H])"
        using ent[OF e] by (metis length_append_singleton nth_mem)
      show "(callback (fst (snd e)) = f) = (fst (snd e) = H)"
      proof
        assume c: "callback (fst (snd e)) = f"
        then have "owner (fst (snd e)) = s" using sc e1 mem by blast
        then show "fst (snd e) = H" using c by (simp add: H_def)
      next
        assume "fst (snd e) = H"
        then show "callback (fst (snd e)) = f" by (simp add: H_def)
      qed
    qed
    show ?thesis using tr le one only by blast
  qed
  show ?thesis using again trig unfolding H_def by blast
qed

theorem register_twice_fires_once_witness:
  "register \<lparr>events = Map.empty\<rparr> ''eat'' (Function (7::nat)) (Some (1::nat)) =
     (True, \<lparr>events = [''eat'' \<mapsto> [\<lparr>callback = 7, owner = Some 1\<rparr>]]\<rparr>) \<and>
   keeps_handlers (\<lambda>f ow (sender::unit) (data::unit) (w::(nat, nat) EventManager). (Return_other, w)) ''eat'' \<and>
   register \<lparr>events = [''eat'' \<mapsto> [\<lparr>callback = 7::nat, owner = Some (1::nat)\<rparr>]]\<rparr> ''eat''
      (Function 7) (Some 1) =
     (False, \<lparr>events = [''eat'' \<mapsto> [\<lparr>callback = 7, owner = Some 1\<rparr>]]\<rparr>) \<and>
   (\<exists>out fired w2.
      trigger (\<lambda>f ow (sender::unit) (data::unit) (w::(nat, nat) EventManager). (Return_other, w))
        ''eat'' () () None \<lparr>events = [''eat'' \<mapsto> [\<lparr>callback = 7::nat, owner = Some (1::nat)\<rparr>]]\<rparr>
        = Some (out, fired, w2) \<and>
      fired = [(0, \<lparr>callback = 7, owner = Some 1\<rparr>, Return_other)] \<and>
      length (filter (\<lambda>e. fst (snd e) = \<lparr>callback = 7, owner = Some 1\<rparr>) fired) = 1 \<and>
      length (filter (\<lambda>e. callback (fst (snd e)) = 7) fired) = 1)"
proof -
  let ?call = "\<lambda>f ow (sender::unit) (data::unit) (w::(nat, nat) EventManager). (Return_other, w)"
  let ?w1 = "\<lparr>events = [''eat'' \<mapsto> [\<lparr>callback = 7::nat, owner = Some (1::nat)\<rparr>]]\<rparr>"
  have reg: "register \<lparr>events = Map.empty\<rparr> ''eat'' (Function (7::nat)) (Some (1::nat)) = (True, ?w1)"
    by (simp add: register_def searchForCallback_def)
  have frame: "keeps_handlers ?call ''eat''"
    by (simp add: keeps_handlers_def)
  have run: "trigger ?call ''eat'' () () None ?w1 =
      Some (Completed, [(0, \<lparr>callback = 7, owner = Some 1\<rparr>, Return_other)], ?w1)"
    by (subst trigger_dispatch[OF frame, of _ "[\<lparr>callback = 7, owner = Some 1\<rparr>]"]) simp_all
  from register_twice_fires_once[OF reg, of ?call "()" "()" None] frame
  show ?thesis using reg run by simp
qed

text \<open>
  Claim C10 (a registration without owner sees every owner). When \<open>register(t, f, s)\<close>
  has succeeded for any owner \<open>s\<close> (or none), \<open>register(t, f)\<close> without owner returns
  \<open>false\<close> and adds nothing: \<open>searchForCallback\<close> without owner compares callbacks only.
\<close>

theorem register_scopeless_after_scoped:
  assumes "register w t (Function f) s = (True, w1)"
  shows "register w1 t (Function f) None = (False, w1)"
proof -
  from register_True[OF assms] obtain hs where
    w1: "w1 = w\<lparr>events := (events w)(t \<mapsto> hs @ [\<lparr>callback = f, owner = s\<rparr>])\<rparr>" by auto
  have e: "events w1 t = Some (hs @ [\<lparr>callback = f, owner = s\<rparr>])"
    unfolding w1 by simp
  have m: "\<lparr>callback = f, owner = s\<rparr> \<in> set (hs @ [\<lparr>callback = f, owner = s\<rparr>])" by simp
  have c: "callback \<lparr>callback = f, owner = s\<rparr> = f" by simp
  show ?thesis
    using register_dup[OF e m c] by simp
qed

theorem register_scopeless_after_scoped_witness:
  "register \<lparr>events = Map.empty\<rparr> ''eat'' (Function (7::nat)) (Some (1::nat)) =
     (True, \<lparr>events = [''eat'' \<mapsto> [\<lparr>callback = 7, owner = Some 1\<rparr>]]\<rparr>) \<and>
   register \<lparr>events = [''eat'' \<mapsto> [\<lparr>callback = 7::nat, owner = Some (1::nat)\<rparr>]]\<rparr> ''eat''
      (Function 7) None =
     (False, \<lparr>events = [''eat'' \<mapsto> [\<lparr>callback = 7, owner = Some 1\<rparr>]]\<rparr>)"
proof -
  have reg: "register \<lparr>events = Map.empty\<rparr> ''eat'' (Function (7::nat)) (Some (1::nat)) =
     (True, \<lparr>events = [''eat'' \<mapsto> [\<lparr>callback = 7, owner = Some 1\<rparr>]]\<rparr>)"
    by (simp add: register_def searchForCallback_def)
  show ?thesis
    using reg register_scopeless_after_scoped[OF reg] by simp
qed


text \<open>
  Claim C4 (short-circuit is per call). Take an event type whose handler list \<open>hs\<close> the
  callbacks do not edit. A \<open>trigger\<close> returns, and calls only handlers of \<open>hs\<close>, each at
  its index. If the handler at index \<open>i\<close> returns \<open>false\<close> in this call, no handler of a
  greater index (registered later) is called in it. The handlers stay registered, and a
  later \<open>trigger\<close> of the same event type starts again at the first handler and calls
  the handlers in registration order; it stops before the end of the list only at a
  handler that returns \<open>false\<close> or throws in that later call.
\<close>

theorem trigger_short_circuit:
  assumes frame: "keeps_handlers call t" and ev: "events w t = Some hs"
  shows "\<exists>out fired w'.
      trigger call t sender data target_only w = Some (out, fired, w') \<and>
      (\<forall>e\<in>set fired. fst e < length hs \<and> fst (snd e) = hs ! fst e) \<and>
      (\<forall>i h. (i, h, Return_false) \<in> set fired \<longrightarrow> (\<forall>e\<in>set fired. fst e \<le> i)) \<and>
      events w' t = Some hs \<and>
      (\<exists>out2 fired2 w2.
         trigger call t sender2 data2 None w' = Some (out2, fired2, w2) \<and>
         map fst fired2 = [0..<length fired2] \<and>
         map (fst \<circ> snd) fired2 = take (length fired2) hs \<and>
         (length fired2 < length hs \<longrightarrow>
            fired2 \<noteq> [] \<and> snd (snd (last fired2)) \<noteq> Return_other))"
proof -
  obtain out fired w' where
    d: "dispatch call sender data target_only 0 hs [] w = (out, fired, w')"
    by (cases "dispatch call sender data target_only 0 hs [] w")
  have tr: "trigger call t sender data target_only w = Some (out, fired, w')"
    using trigger_dispatch[OF frame ev] d by simp
  have ent: "\<forall>e\<in>set fired. fst e < length hs \<and> fst (snd e) = hs ! fst e"
    using dispatch_entries[OF d] by simp
  have cut: "\<forall>e\<in>set fired. fst e \<le> i" if m: "(i, h, Return_false) \<in> set fired" for i h
    using dispatch_false_last[OF d m] by blast
  have ev': "events w' t = Some hs"
    using dispatch_keeps[OF frame d] ev by simp
  obtain out2 fired2 w2 where
    d2: "dispatch call sender2 data2 None 0 hs [] w' = (out2, fired2, w2)"
    by (cases "dispatch call sender2 data2 None 0 hs [] w'")
  have tr2: "trigger call t sender2 data2 None w' = Some (out2, fired2, w2)"
    using trigger_dispatch[OF frame ev'] d2 by simp
  have cut': "\<forall>i h. (i, h, Return_false) \<in> set fired \<longrightarrow> (\<forall>e\<in>set fired. fst e \<le> i)"
    using cut by blast
  have later: "\<exists>out2 fired2 w2.
         trigger call t sender2 data2 None w' = Some (out2, fired2, w2) \<and>
         map fst fired2 = [0..<length fired2] \<and>
         map (fst \<circ> snd) fired2 = take (length fired2) hs \<and>
         (length fired2 < length hs \<longrightarrow>
            fired2 \<noteq> [] \<and> snd (snd (last fired2)) \<noteq> Return_other)"
    using tr2 dispatch_untargeted[OF d2] by simp
  show ?thesis
    using tr ent cut' ev' later by blast
qed



theorem trigger_short_circuit_witness:
  "keeps_handlers (\<lambda>f ow (sender::unit) (data::bool) (w::(nat, nat) EventManager).
        (if f = 1 \<and> data then Return_false else Return_other, w)) ''die'' \<and>
   events \<lparr>events = [''die'' \<mapsto> [\<lparr>callback = 0::nat, owner = Some (5::nat)\<rparr>,
        \<lparr>callback = 1, owner = None\<rparr>, \<lparr>callback = 2, owner = None\<rparr>]]\<rparr> ''die'' =
     Some [\<lparr>callback = 0, owner = Some 5\<rparr>, \<lparr>callback = 1, owner = None\<rparr>,
        \<lparr>callback = 2, owner = None\<rparr>] \<and>
   (\<exists>out fired w'.
      trigger (\<lambda>f ow (sender::unit) (data::bool) (w::(nat, nat) EventManager).
          (if f = 1 \<and> data then Return_false else Return_other, w)) ''die'' () True None
        \<lparr>events = [''die'' \<mapsto> [\<lparr>callback = 0::nat, owner = Some (5::nat)\<rparr>,
          \<lparr>callback = 1, owner = None\<rparr>, \<lparr>callback = 2, owner = None\<rparr>]]\<rparr>
        = Some (out, fired, w') \<and>
      fired = [(0, \<lparr>callback = 0, owner = Some 5\<rparr>, Return_other),
               (1, \<lparr>callback = 1, owner = None\<rparr>, Return_false)] \<and>
      (\<forall>e\<in>set fired. fst e \<le> 1) \<and>
      events w' ''die'' = Some [\<lparr>callback = 0, owner = Some 5\<rparr>, \<lparr>callback = 1, owner = None\<rparr>,
        \<lparr>callback = 2, owner = None\<rparr>] \<and>
      (\<exists>out2 fired2 w2.
         trigger (\<lambda>f ow (sender::unit) (data::bool) (w::(nat, nat) EventManager).
             (if f = 1 \<and> data then Return_false else Return_other, w)) ''die'' () False None w'
           = Some (out2, fired2, w2) \<and>
         map fst fired2 = [0, 1, 2] \<and>
         map (fst \<circ> snd) fired2 = [\<lparr>callback = 0, owner = Some 5\<rparr>,
           \<lparr>callback = 1, owner = None\<rparr>, \<lparr>callback = 2, owner = None\<rparr>]))"
proof -
  let ?call = "\<lambda>f ow (sender::unit) (data::bool) (w::(nat, nat) EventManager).
        (if f = 1 \<and> data then Return_false else Return_other, w)"
  let ?hs = "[\<lparr>callback = 0::nat, owner = Some (5::nat)\<rparr>, \<lparr>callback = 1, owner = None\<rparr>,
        \<lparr>callback = 2, owner = None\<rparr>]"
  let ?w = "\<lparr>events = [''die'' \<mapsto> ?hs]\<rparr>"
  have frame: "keeps_handlers ?call ''die''"
    by (simp add: keeps_handlers_def)
  have ev: "events ?w ''die'' = Some ?hs" by simp
  have run1: "trigger ?call ''die'' () True None ?w =
      Some (Completed, [(0, \<lparr>callback = 0, owner = Some 5\<rparr>, Return_other),
               (1, \<lparr>callback = 1, owner = None\<rparr>, Return_false)], ?w)"
    by (subst trigger_dispatch[OF frame ev]) simp
  have run2: "trigger ?call ''die'' () False None ?w =
      Some (Completed, [(0, \<lparr>callback = 0, owner = Some 5\<rparr>, Return_other),
               (1, \<lparr>callback = 1, owner = None\<rparr>, Return_other),
               (2, \<lparr>callback = 2, owner = None\<rparr>, Return_other)], ?w)"
    by (subst trigger_dispatch[OF frame ev]) simp
  from trigger_short_circuit[OF frame ev, of "()" True None "()" False]
  show ?thesis using frame run1 run2 by simp
qed

section \<open>Concrete states\<close>

lemmas Headings_defs = Headings_Left_def Headings_Up_def Headings_Right_def Headings_Down_def

lemma driver_game_eq:
  "driver_game =
     \<lparr>started = False, finished = False, player_dead = False, level = - 1, levels_count = 7,
      object_man_started = False, score = 0, lives = 3, game_speed = Some 3,
      snake = Some \<lparr>self = Entity 0 Snake_class, body_blocks = [], speed = Some 3,
                    heading = None, heading_queue = [Headings_Right], length_cfg = Some 2,
                    applied_upgrades = []\<rparr>,
      objects = [Entity 0 Snake_class], alloc_info = Map.empty, next_ident = 1\<rparr>"
  by (simp add: driver_game_def new_Game_def Game_setSpeed_def setupSnake_def new_Snake_def
      setHeading_def setLength_def setSpeed_def allocBlock_def object_man_add_def
      Game_getSpeed_def SpeedLevels_Min_def SpeedLevels_Max_def MIN_LENGTH_def Headings_defs
      Let_def)

lemma driver_game_with_prey_eq:
  "driver_game_with_prey =
     \<lparr>started = False, finished = False, player_dead = False, level = - 1, levels_count = 7,
      object_man_started = False, score = 0, lives = 3, game_speed = Some 3,
      snake = Some \<lparr>self = Entity 0 Snake_class, body_blocks = [], speed = Some 3,
                    heading = None, heading_queue = [Headings_Right], length_cfg = Some 2,
                    applied_upgrades = []\<rparr>,
      objects = [Entity 0 Snake_class, Entity 1 Mouse_class, Entity 2 Grain_class],
      alloc_info = Map.empty, next_ident = 3\<rparr>"
  by (simp add: driver_game_with_prey_def driver_game_eq object_man_add_def)

section \<open>Properties of the allocation grid\<close>

lemma sparseD:
  "sparse g \<Longrightarrow> alloc_info g x = Some item \<Longrightarrow>
     finite (dom (cells item)) \<and> length_col item = int (card (dom (cells item))) \<and>
     0 < length_col item"
  unfolding sparse_def by blast

lemma sparse_sub:
  "sparse g \<Longrightarrow> (\<And>x item. alloc_info g' x = Some item \<Longrightarrow> alloc_info g x = Some item) \<Longrightarrow>
     sparse g'"
  unfolding sparse_def by blast

lemma sparse_upd:
  assumes "sparse g"
    and "finite (dom (cells it)) \<and> length_col it = int (card (dom (cells it))) \<and> 0 < length_col it"
    and "alloc_info g' = (alloc_info g)(x \<mapsto> it)"
  shows "sparse g'"
proof -
  have "finite (dom (cells item)) \<and> length_col item = int (card (dom (cells item))) \<and>
        0 < length_col item" if "alloc_info g' x' = Some item" for x' item
  proof (cases "x' = x")
    case True
    then have "item = it" using that assms(3) by simp
    then show ?thesis using assms(2) by simp
  next
    case False
    then have "alloc_info g x' = Some item" using that assms(3) by simp
    then show ?thesis by (rule sparseD[OF assms(1)])
  qed
  then show ?thesis unfolding sparse_def by blast
qed

lemma sparse_setAllocObj:
  assumes "sparse g" and "getAllocObj g x y = None"
  shows "sparse (setAllocObj g x y ow)"
proof -
  have "finite (dom (cells it)) \<and> length_col it = int (card (dom (cells it))) \<and> 0 < length_col it"
    if "alloc_info (setAllocObj g x y ow) x' = Some it" for x' it
  proof (cases "x' = x")
    case False
    then have "alloc_info g x' = Some it" using that by (simp add: setAllocObj_def Let_def)
    then show ?thesis by (rule sparseD[OF assms(1)])
  next
    case True
    show ?thesis
    proof (cases "alloc_info g x")
      case None
      then show ?thesis using that True by (auto simp: setAllocObj_def Let_def)
    next
      case (Some old)
      have o: "finite (dom (cells old))" "length_col old = int (card (dom (cells old)))"
        using sparseD[OF assms(1) Some] by simp_all
      have fr: "y \<notin> dom (cells old)" using assms(2) Some by (auto simp: getAllocObj_def)
      have it: "it = old\<lparr>cells := (cells old)(y \<mapsto> ow), length_col := length_col old + 1\<rparr>"
        using that True Some by (auto simp: setAllocObj_def Let_def)
      show ?thesis using o fr by (simp add: it)
    qed
  qed
  then show ?thesis unfolding sparse_def by blast
qed

lemma sparse_onAlloc: "sparse g \<Longrightarrow> sparse (fst (onAlloc s x y g))"
  by (auto simp: onAlloc_def sparse_setAllocObj split: option.splits)

lemma sparse_onDealloc:
  assumes "sparse g"
  shows "sparse (onDealloc s x y g)"
proof (cases "getAllocObj g x y = Some s")
  case False
  then show ?thesis using assms by (simp add: onDealloc_def)
next
  case True
  then obtain item where it: "alloc_info g x = Some item" and cy: "cells item y = Some s"
    by (auto simp: getAllocObj_def split: option.splits)
  have o: "finite (dom (cells item))" "length_col item = int (card (dom (cells item)))"
    "0 < length_col item"
    using sparseD[OF assms it] by simp_all
  show ?thesis
  proof (cases "length_col item - 1 = 0")
    case z: True
    have "onDealloc s x y g = g\<lparr>alloc_info := (alloc_info g)(x := None)\<rparr>"
      using True it z by (simp add: onDealloc_def)
    then have "alloc_info (onDealloc s x y g) x' = Some i' \<Longrightarrow> alloc_info g x' = Some i'"
      for x' i' by (simp split: if_splits)
    then show ?thesis by (rule sparse_sub[OF assms])
  next
    case nz: False
    let ?it = "item\<lparr>length_col := length_col item - 1, cells := (cells item)(y := None)\<rparr>"
    have eq: "onDealloc s x y g = g\<lparr>alloc_info := (alloc_info g)(x \<mapsto> ?it)\<rparr>"
      using True it nz by (simp add: onDealloc_def)
    have yd: "y \<in> dom (cells item)" using cy by auto
    have d: "dom ((cells item)(y := None)) = dom (cells item) - {y}" by auto
    have c: "card (dom (cells item) - {y}) = card (dom (cells item)) - 1"
      using o(1) yd by simp
    have pos: "0 < card (dom (cells item))" using o(1) yd by (auto simp: card_gt_0_iff)
    have "finite (dom (cells ?it)) \<and> length_col ?it = int (card (dom (cells ?it))) \<and> 0 < length_col ?it"
      using o nz pos by (simp add: d c)
    then show ?thesis using sparse_upd[OF assms, of ?it "onDealloc s x y g" x] eq by simp
  qed
qed

lemma getAllocObj_onAlloc:
  "getAllocObj (fst (onAlloc s x' y' g)) x y =
     (if getAllocObj g x' y' = None \<and> x' = x \<and> y' = y then Some s else getAllocObj g x y)"
  by (auto simp: onAlloc_def getAllocObj_def setAllocObj_def Let_def split: option.splits)

lemma getAllocObj_onDealloc:
  assumes "sparse g"
  shows "getAllocObj (onDealloc s x' y' g) x y =
     (if getAllocObj g x' y' = Some s \<and> x' = x \<and> y' = y then None else getAllocObj g x y)"
proof (cases "getAllocObj g x' y' = Some s")
  case False
  then show ?thesis by (simp add: onDealloc_def)
next
  case True
  then obtain item where it: "alloc_info g x' = Some item" and cy: "cells item y' = Some s"
    by (auto simp: getAllocObj_def split: option.splits)
  have o: "finite (dom (cells item))" "length_col item = int (card (dom (cells item)))"
    using sparseD[OF assms it] by simp_all
  show ?thesis
  proof (cases "length_col item - 1 = 0")
    case z: True
    have eq: "onDealloc s x' y' g = g\<lparr>alloc_info := (alloc_info g)(x' := None)\<rparr>"
      using True it z by (simp add: onDealloc_def)
    have "card (dom (cells item)) = 1" using o(2) z by simp
    then obtain k where k: "dom (cells item) = {k}" by (auto simp: card_1_singleton_iff)
    then have "k = y'" using cy by auto
    then have "cells item y = None" if "y \<noteq> y'" using k that by auto
    then show ?thesis using True it unfolding eq
      by (auto simp: getAllocObj_def)
  next
    case nz: False
    have eq: "onDealloc s x' y' g = g\<lparr>alloc_info := (alloc_info g)(x' \<mapsto>
        item\<lparr>length_col := length_col item - 1, cells := (cells item)(y' := None)\<rparr>)\<rparr>"
      using True it nz by (simp add: onDealloc_def)
    show ?thesis using True it unfolding eq by (auto simp: getAllocObj_def)
  qed
qed

lemma sparse_handle_all: "sparse g \<Longrightarrow> sparse (handle_all es g)"
proof (induction es arbitrary: g)
  case Nil
  then show ?case by simp
next
  case (Cons e es)
  then show ?case by (cases e) (simp_all add: sparse_onAlloc sparse_onDealloc)
qed

lemma owner_kept:
  "sparse g \<Longrightarrow> getAllocObj g x y = Some A \<Longrightarrow> \<forall>e\<in>set es. e \<noteq> Dealloc A x y \<Longrightarrow>
     getAllocObj (handle_all es g) x y = Some A"
proof (induction es arbitrary: g)
  case Nil
  then show ?case by simp
next
  case (Cons e es)
  have sp: "sparse (handle_grid e g)"
    using Cons.prems(1) by (cases e) (simp_all add: sparse_onAlloc sparse_onDealloc)
  have own: "getAllocObj (handle_grid e g) x y = Some A"
  proof (cases e)
    case (Alloc s x' y')
    then show ?thesis using Cons.prems(2) by (auto simp: getAllocObj_onAlloc)
  next
    case (Dealloc s x' y')
    then have "\<not> (s = A \<and> x' = x \<and> y' = y)" using Cons.prems(3) by auto
    then show ?thesis using Dealloc Cons.prems(1,2)
      by (auto simp: getAllocObj_onDealloc)
  qed
  show ?case using Cons.IH[OF sp own] Cons.prems(3) by simp
qed

lemma onDealloc_not_owner: "getAllocObj g x y \<noteq> Some s \<Longrightarrow> onDealloc s x y g = g"
  by (simp add: onDealloc_def)

text \<open>
  Claim C1 (exclusive ownership of a cell). Take a grid in its sparse representation and
  a free cell \<open>(x, y)\<close>. \<open>onAlloc(A, (x, y))\<close> records \<open>A\<close> as the owner and triggers
  \<open>alloc-recv\<close> targeted at \<open>A\<close> only. After any further \<open>alloc\<close> and \<open>dealloc\<close> events,
  none of which is a \<open>dealloc\<close> of \<open>(x, y)\<close> sent by \<open>A\<close>, the owner is still \<open>A\<close>, and
  \<open>onAlloc(B, (x, y))\<close> leaves the grid as it is and triggers \<open>collide\<close> with initiator
  \<open>B\<close> and receiver \<open>A\<close>. An \<open>onDealloc\<close> whose sender does not own the cell it names
  changes nothing, an \<open>onDealloc\<close> of \<open>(x, y)\<close> sent by \<open>A\<close> frees the cell, and the grid
  stays sparse throughout, as does every grid that the two handlers build from the empty
  one: a key that is present has an owner (the grid is a map, so at most one), and a
  column object that is present holds as many cells as its \<open>length\<close> says, at least one.
\<close>

theorem alloc_grid_exclusive:
  assumes sp: "sparse g" and free: "getAllocObj g x y = None"
    and ok: "\<forall>e\<in>set es. e \<noteq> Dealloc A x y"
  shows "onAlloc A x y g =
           (setAllocObj g x y A, [Trigger ''alloc-recv'' Game_sender (Granted A x y) (Some A)]) \<and>
         getAllocObj (setAllocObj g x y A) x y = Some A \<and>
         getAllocObj (handle_all es (setAllocObj g x y A)) x y = Some A \<and>
         onAlloc B x y (handle_all es (setAllocObj g x y A)) =
           (handle_all es (setAllocObj g x y A),
            [Trigger ''collide'' Game_sender (Collision B A x y) None]) \<and>
         (\<forall>s x' y'. getAllocObj (handle_all es (setAllocObj g x y A)) x' y' \<noteq> Some s \<longrightarrow>
            onDealloc s x' y' (handle_all es (setAllocObj g x y A)) =
              handle_all es (setAllocObj g x y A)) \<and>
         getAllocObj (onDealloc A x y (handle_all es (setAllocObj g x y A))) x y = None \<and>
         sparse (handle_all es (setAllocObj g x y A)) \<and>
         sparse (onDealloc A x y (handle_all es (setAllocObj g x y A))) \<and>
         (alloc_info g0 = Map.empty \<longrightarrow> sparse (handle_all es0 g0))"
proof -
  let ?g1 = "setAllocObj g x y A"
  let ?g2 = "handle_all es ?g1"
  have a: "onAlloc A x y g =
      (?g1, [Trigger ''alloc-recv'' Game_sender (Granted A x y) (Some A)])"
    using free by (simp add: onAlloc_def)
  have sp1: "sparse ?g1" by (rule sparse_setAllocObj[OF sp free])
  have o1: "getAllocObj ?g1 x y = Some A"
    using getAllocObj_onAlloc[of A x y g x y] free a by simp
  have o2: "getAllocObj ?g2 x y = Some A" by (rule owner_kept[OF sp1 o1 ok])
  have sp2: "sparse ?g2" by (rule sparse_handle_all[OF sp1])
  have c: "onAlloc B x y ?g2 = (?g2, [Trigger ''collide'' Game_sender (Collision B A x y) None])"
    using o2 by (simp add: onAlloc_def)
  have d: "getAllocObj (onDealloc A x y ?g2) x y = None"
    using o2 by (simp add: getAllocObj_onDealloc[OF sp2])
  have "sparse g0" if "alloc_info g0 = Map.empty"
    unfolding sparse_def using that by simp
  then have e: "alloc_info g0 = Map.empty \<longrightarrow> sparse (handle_all es0 g0)"
    using sparse_handle_all[of g0 es0] by blast
  have f: "\<forall>s x' y'. getAllocObj ?g2 x' y' \<noteq> Some s \<longrightarrow> onDealloc s x' y' ?g2 = ?g2"
    using onDealloc_not_owner by blast
  show ?thesis
    by (intro conjI a o1 o2 c f d sp2 sparse_onDealloc[OF sp2] e)
qed

text \<open>
  An instance of C1 on the grid of a new game: the Player takes the top-left cell, a mouse
  collides with it there, and the Player keeps the cell while other cells come and go.
\<close>

theorem alloc_grid_exclusive_witness:
  "sparse driver_game \<and> getAllocObj driver_game 0 0 = None \<and>
   onAlloc (Entity 0 Snake_class) 0 0 driver_game =
     (setAllocObj driver_game 0 0 (Entity 0 Snake_class),
      [Trigger ''alloc-recv'' Game_sender (Granted (Entity 0 Snake_class) 0 0)
         (Some (Entity 0 Snake_class))]) \<and>
   getAllocObj (handle_all [Alloc (Entity 1 Mouse_class) 0 0, Dealloc (Entity 1 Mouse_class) 0 0,
        Alloc (Entity 1 Mouse_class) 0 10, Dealloc (Entity 0 Snake_class) 0 10]
      (setAllocObj driver_game 0 0 (Entity 0 Snake_class))) 0 0 = Some (Entity 0 Snake_class) \<and>
   onAlloc (Entity 1 Mouse_class) 0 0
     (handle_all [Alloc (Entity 1 Mouse_class) 0 0, Dealloc (Entity 1 Mouse_class) 0 0,
        Alloc (Entity 1 Mouse_class) 0 10, Dealloc (Entity 0 Snake_class) 0 10]
      (setAllocObj driver_game 0 0 (Entity 0 Snake_class))) =
     (handle_all [Alloc (Entity 1 Mouse_class) 0 0, Dealloc (Entity 1 Mouse_class) 0 0,
        Alloc (Entity 1 Mouse_class) 0 10, Dealloc (Entity 0 Snake_class) 0 10]
      (setAllocObj driver_game 0 0 (Entity 0 Snake_class)),
      [Trigger ''collide'' Game_sender
         (Collision (Entity 1 Mouse_class) (Entity 0 Snake_class) 0 0) None]) \<and>
   getAllocObj (onDealloc (Entity 0 Snake_class) 0 0
     (handle_all [Alloc (Entity 1 Mouse_class) 0 0, Dealloc (Entity 1 Mouse_class) 0 0,
        Alloc (Entity 1 Mouse_class) 0 10, Dealloc (Entity 0 Snake_class) 0 10]
      (setAllocObj driver_game 0 0 (Entity 0 Snake_class)))) 0 0 = None"
proof -
  have sp: "sparse driver_game" by (simp add: sparse_def driver_game_eq)
  have free: "getAllocObj driver_game 0 0 = None" by (simp add: getAllocObj_def driver_game_eq)
  have ok: "\<forall>e\<in>set [Alloc (Entity 1 Mouse_class) 0 0, Dealloc (Entity 1 Mouse_class) 0 0,
        Alloc (Entity 1 Mouse_class) 0 10, Dealloc (Entity 0 Snake_class) 0 10].
      e \<noteq> Dealloc (Entity 0 Snake_class) 0 0" by simp
  note t = alloc_grid_exclusive[OF sp free ok, of "Entity 1 Mouse_class" driver_game "[]"]
  show ?thesis
    by (intro conjI sp free t[THEN conjunct1] t[THEN conjunct2, THEN conjunct2, THEN conjunct1]
        t[THEN conjunct2, THEN conjunct2, THEN conjunct2, THEN conjunct1]
        t[THEN conjunct2, THEN conjunct2, THEN conjunct2, THEN conjunct2, THEN conjunct2,
          THEN conjunct1])
qed

section \<open>Properties of the Player\<close>

text \<open>
  Claim C3, as stated, fails: the reverse of a heading that is queued but not yet applied
  is accepted. With the Player heading right and nothing queued, \<open>Up\<close> is queued; \<open>Down\<close>,
  the reverse of the queued \<open>Up\<close>, is then queued behind it, because \<open>setHeading\<close>
  compares the new heading with \<open>this.heading\<close>, the heading last applied by
  \<open>getHeading\<close>, and not with the queue.
\<close>

theorem setHeading_reverse_of_queued_counterexample:
  "setHeading Headings_Up
     \<lparr>self = Entity 0 Snake_class, body_blocks = [(0, 0)], speed = Some 3,
      heading = Some Headings_Right, heading_queue = [], length_cfg = Some 2,
      applied_upgrades = []\<rparr> =
     \<lparr>self = Entity 0 Snake_class, body_blocks = [(0, 0)], speed = Some 3,
      heading = Some Headings_Right, heading_queue = [Headings_Up], length_cfg = Some 2,
      applied_upgrades = []\<rparr> \<and>
   setHeading (opposite Headings_Up)
     \<lparr>self = Entity 0 Snake_class, body_blocks = [(0, 0)], speed = Some 3,
      heading = Some Headings_Right, heading_queue = [Headings_Up], length_cfg = Some 2,
      applied_upgrades = []\<rparr> =
     \<lparr>self = Entity 0 Snake_class, body_blocks = [(0, 0)], speed = Some 3,
      heading = Some Headings_Right, heading_queue = [Headings_Up, Headings_Down],
      length_cfg = Some 2, applied_upgrades = []\<rparr>"
  by (simp add: setHeading_def opposite_def Headings_defs)

text \<open>
  Claim C3, amended. \<open>setHeading\<close> queues a heading exactly when it is one of the four
  headings, is not the heading queued last, and is not the reverse of the heading that is
  currently applied (\<open>this.heading\<close>); otherwise it changes nothing. In particular, when
  the applied heading is neither \<open>Up\<close> nor \<open>Down\<close>, \<open>Down\<close> issued right after \<open>Up\<close> is
  queued behind it.
\<close>

theorem setHeading_accepts:
  "setHeading h s =
     (if h \<in> {Headings_Left, Headings_Up, Headings_Right, Headings_Down} \<and>
         (heading_queue s = [] \<or> h \<noteq> last (heading_queue s)) \<and>
         heading s \<noteq> Some (opposite h)
      then s\<lparr>heading_queue := heading_queue s @ [h]\<rparr>
      else s) \<and>
   (heading s \<noteq> Some Headings_Up \<and> heading s \<noteq> Some Headings_Down \<and>
    (heading_queue s = [] \<or> last (heading_queue s) \<noteq> Headings_Up) \<longrightarrow>
      setHeading Headings_Down (setHeading Headings_Up s) =
        s\<lparr>heading_queue := heading_queue s @ [Headings_Up, Headings_Down]\<rparr>)"
  by (auto simp: setHeading_def opposite_def Headings_defs Let_def)

text \<open>
  An instance: heading left, \<open>Up\<close> then \<open>Down\<close> are both queued; \<open>Right\<close>, the reverse
  of the applied heading, is rejected.
\<close>

theorem setHeading_accepts_witness:
  "setHeading Headings_Down (setHeading Headings_Up
     \<lparr>self = Entity 0 Snake_class, body_blocks = [(0, 0)], speed = Some 3,
      heading = Some Headings_Left, heading_queue = [Headings_Left], length_cfg = Some 2,
      applied_upgrades = []\<rparr>) =
     \<lparr>self = Entity 0 Snake_class, body_blocks = [(0, 0)], speed = Some 3,
      heading = Some Headings_Left,
      heading_queue = [Headings_Left, Headings_Up, Headings_Down], length_cfg = Some 2,
      applied_upgrades = []\<rparr> \<and>
   setHeading Headings_Right
     \<lparr>self = Entity 0 Snake_class, body_blocks = [(0, 0)], speed = Some 3,
      heading = Some Headings_Left, heading_queue = [Headings_Up], length_cfg = Some 2,
      applied_upgrades = []\<rparr> =
     \<lparr>self = Entity 0 Snake_class, body_blocks = [(0, 0)], speed = Some 3,
      heading = Some Headings_Left, heading_queue = [Headings_Up], length_cfg = Some 2,
      applied_upgrades = []\<rparr>"
proof -
  have a: "setHeading Headings_Down (setHeading Headings_Up
     \<lparr>self = Entity 0 Snake_class, body_blocks = [(0, 0)], speed = Some 3,
      heading = Some Headings_Left, heading_queue = [Headings_Left], length_cfg = Some 2,
      applied_upgrades = []\<rparr>) =
     \<lparr>self = Entity 0 Snake_class, body_blocks = [(0, 0)], speed = Some 3,
      heading = Some Headings_Left,
      heading_queue = [Headings_Left, Headings_Up, Headings_Down], length_cfg = Some 2,
      applied_upgrades = []\<rparr>"
    using setHeading_accepts[THEN conjunct2, of "\<lparr>self = Entity 0 Snake_class,
      body_blocks = [(0, 0)], speed = Some 3, heading = Some Headings_Left,
      heading_queue = [Headings_Left], length_cfg = Some 2, applied_upgrades = []\<rparr>"]
    by (simp add: Headings_defs)
  have b: "setHeading Headings_Right
     \<lparr>self = Entity 0 Snake_class, body_blocks = [(0, 0)], speed = Some 3,
      heading = Some Headings_Left, heading_queue = [Headings_Up], length_cfg = Some 2,
      applied_upgrades = []\<rparr> =
     \<lparr>self = Entity 0 Snake_class, body_blocks = [(0, 0)], speed = Some 3,
      heading = Some Headings_Left, heading_queue = [Headings_Up], length_cfg = Some 2,
      applied_upgrades = []\<rparr>"
    using setHeading_accepts[THEN conjunct1, of Headings_Right "\<lparr>self = Entity 0 Snake_class,
      body_blocks = [(0, 0)], speed = Some 3, heading = Some Headings_Left,
      heading_queue = [Headings_Up], length_cfg = Some 2, applied_upgrades = []\<rparr>"]
    by (simp add: opposite_def Headings_defs)
  show ?thesis using a b by (rule conjI)
qed

lemma eraseTail_length: "eraseTail n s out = (e, s', out') \<Longrightarrow> length_cfg s' = length_cfg s"
proof (induction n arbitrary: s out)
  case 0
  then show ?case by simp
next
  case (Suc n)
  then show ?case
    by (cases "body_blocks s") (auto split: prod.splits)
qed

lemma setLength_length_ok:
  assumes "setLength arg s = (e, s', out)" and "length_ok s"
  shows "length_ok s'"
proof -
  define len where "len = (case arg of None \<Rightarrow> MIN_LENGTH
      | Some l \<Rightarrow> if l = 0 \<or> l < MIN_LENGTH then MIN_LENGTH else l)"
  have len2: "MIN_LENGTH \<le> len" by (auto simp: len_def split: option.splits)
  show ?thesis
  proof (cases "length_cfg s")
    case None
    then show ?thesis using assms(1) len2
      by (auto simp: setLength_def length_ok_def len_def[symmetric])
  next
    case (Some cur)
    show ?thesis
    proof (cases "cur = 0 \<or> \<not> cur - len > 1")
      case True
      then show ?thesis using assms(1) Some len2
        by (auto simp: setLength_def length_ok_def len_def[symmetric] Let_def split: if_splits)
    next
      case False
      obtain e1 s1 out1 where et: "eraseTail (nat (cur - len)) s [] = (e1, s1, out1)"
        by (cases "eraseTail (nat (cur - len)) s []")
      have l1: "length_cfg s1 = Some cur" using eraseTail_length[OF et] Some by simp
      have "length_ok s1" using assms(2) Some l1 by (simp add: length_ok_def)
      then show ?thesis using assms(1) Some False et len2
        by (cases e1) (auto simp: setLength_def length_ok_def len_def[symmetric] Let_def)
    qed
  qed
qed

lemma setLength_clamps:
  assumes "setLength arg s = (None, s', out)" and "arg = None \<or> (\<exists>l. arg = Some l \<and> l < MIN_LENGTH)"
  shows "length_cfg s' = Some MIN_LENGTH"
  using assms
  by (auto simp: setLength_def Let_def MIN_LENGTH_def split: option.splits if_splits prod.splits)

lemma getLength_ge: "length_ok s \<Longrightarrow> MIN_LENGTH \<le> getLength s"
  by (auto simp: length_ok_def getLength_def MIN_LENGTH_def split: option.splits)

lemma setLength_grow:
  assumes "length_ok s" and "0 \<le> k"
  shows "setLength (Some (getLength s + k)) s = (None, s\<lparr>length_cfg := Some (getLength s + k)\<rparr>, [])"
  using assms getLength_ge[OF assms(1)]
  by (auto simp: setLength_def Let_def getLength_def MIN_LENGTH_def split: option.splits)

lemma new_Snake_length:
  assumes "new_Snake me u opts = (e, s, out)"
  shows "e = None \<and> length_ok s \<and> MIN_LENGTH \<le> getLength s"
proof -
  define s1 where "s1 = setHeading (case opt_heading opts of None \<Rightarrow> Headings_Right
      | Some h \<Rightarrow> if h = 0 then Headings_Right else h)
      \<lparr>self = me, body_blocks = [], speed = None, heading = None,
       heading_queue = [], length_cfg = None, applied_upgrades = []\<rparr>"
  have l1: "length_cfg s1 = None"
    by (simp add: s1_def setHeading_def Let_def)
  obtain s2 where sl: "setLength (opt_length opts) s1 = (None, s2, [])" and
      ok2: "length_ok s2"
    using l1 by (auto simp: setLength_def length_ok_def split: option.splits)
  have "e = None \<and> length_cfg s = length_cfg s2"
    using assms sl unfolding new_Snake_def s1_def[symmetric] Let_def
    by (auto simp: setSpeed_def)
  then have "e = None \<and> length_ok s" using ok2 by (simp add: length_ok_def)
  then show ?thesis using getLength_ge by blast
qed

lemma addUpgrades_length: "length_cfg (addUpgrades ts s) = length_cfg s"
  by (induction ts arbitrary: s) (auto simp: addUpgrade_def)

lemma new_Snake_fst: "fst (new_Snake me u opts) = None"
  using new_Snake_length[of me u opts] by (cases "new_Snake me u opts") simp

lemma new_Snake_ok: "length_ok (fst (snd (new_Snake me u opts)))"
  using new_Snake_length[of me u opts] by (cases "new_Snake me u opts") simp

lemma length_ok_addUpgrades: "length_ok (addUpgrades ts s) = length_ok s"
  by (simp add: length_ok_def addUpgrades_length)

lemma setupSnake_length:
  assumes "setupSnake r u g = (e, g', out)"
  shows "e = None \<and> (\<exists>s. snake g' = Some s \<and> length_ok s \<and> MIN_LENGTH \<le> getLength s)"
proof -
  have "e = None \<and> (\<exists>s. snake g' = Some s \<and> length_ok s)"
    using assms unfolding setupSnake_def Let_def case_prod_beta
    by (auto simp: new_Snake_fst new_Snake_ok length_ok_addUpgrades object_man_add_def
        split: option.splits if_splits)
  then show ?thesis using getLength_ge by blast
qed

text \<open>
  Claim C9 (the configured length is at least \<open>MIN_LENGTH = 2\<close>). \<open>length\<close> is written by
  \<open>setLength\<close> only, so it is either unset or at least 2 (\<open>length_ok\<close>): the constructor
  establishes this and \<open>setLength\<close> keeps it, also when it throws. Then \<open>getLength\<close> is at
  least 2; \<open>setLength\<close> of a missing value or of a value below 2 sets 2; growing by a
  non-negative amount sets exactly the greater length and erases nothing; the Player
  built by \<open>setupSnake\<close> (by which \<open>restart()\<close> and every level set-up rebuild the Player)
  and the Player after an \<open>eat\<close> event have a length of at least 2.
\<close>

theorem snake_length_at_least_MIN:
  "(length_ok s \<longrightarrow> MIN_LENGTH \<le> getLength s) \<and>
   (\<forall>arg e s' out. length_ok s \<and> setLength arg s = (e, s', out) \<longrightarrow>
      length_ok s' \<and> MIN_LENGTH \<le> getLength s' \<and>
      (e = None \<and> (arg = None \<or> (\<exists>l. arg = Some l \<and> l < MIN_LENGTH)) \<longrightarrow>
         length_cfg s' = Some MIN_LENGTH)) \<and>
   (\<forall>k. length_ok s \<and> 0 \<le> k \<longrightarrow>
      setLength (Some (getLength s + k)) s =
        (None, s\<lparr>length_cfg := Some (getLength s + k)\<rparr>, [])) \<and>
   (\<forall>me u opts. fst (new_Snake me u opts) = None \<and>
      length_ok (fst (snd (new_Snake me u opts))) \<and>
      MIN_LENGTH \<le> getLength (fst (snd (new_Snake me u opts)))) \<and>
   (\<forall>r u g e g' out. setupSnake r u (g :: Game) = (e, g', out) \<longrightarrow>
      e = None \<and> (\<exists>s'. snake g' = Some s' \<and> length_ok s' \<and> MIN_LENGTH \<le> getLength s')) \<and>
   (\<forall>sndr x y g r g' out. snake g = Some s \<and> length_ok s \<and> onEat sndr x y g = (r, g', out) \<longrightarrow>
      (\<exists>s'. snake g' = Some s' \<and> length_ok s' \<and> MIN_LENGTH \<le> getLength s'))"
proof -
  have a: "length_ok s \<longrightarrow> MIN_LENGTH \<le> getLength s" using getLength_ge by blast
  have b: "\<forall>arg e s' out. length_ok s \<and> setLength arg s = (e, s', out) \<longrightarrow>
      length_ok s' \<and> MIN_LENGTH \<le> getLength s' \<and>
      (e = None \<and> (arg = None \<or> (\<exists>l. arg = Some l \<and> l < MIN_LENGTH)) \<longrightarrow>
         length_cfg s' = Some MIN_LENGTH)"
    using setLength_length_ok setLength_clamps getLength_ge by blast
  have c: "\<forall>k. length_ok s \<and> 0 \<le> k \<longrightarrow>
      setLength (Some (getLength s + k)) s =
        (None, s\<lparr>length_cfg := Some (getLength s + k)\<rparr>, [])"
    using setLength_grow by blast
  have d: "\<forall>me u opts. fst (new_Snake me u opts) = None \<and>
      length_ok (fst (snd (new_Snake me u opts))) \<and>
      MIN_LENGTH \<le> getLength (fst (snd (new_Snake me u opts)))"
    using new_Snake_fst new_Snake_ok getLength_ge by blast
  have e: "\<forall>r u g e g' out. setupSnake r u (g :: Game) = (e, g', out) \<longrightarrow>
      e = None \<and> (\<exists>s'. snake g' = Some s' \<and> length_ok s' \<and> MIN_LENGTH \<le> getLength s')"
    using setupSnake_length by blast
  have f: "\<exists>s'. snake g' = Some s' \<and> length_ok s' \<and> MIN_LENGTH \<le> getLength s'"
    if sn: "snake g = Some s" and ok: "length_ok s" and ev: "onEat sndr x y g = (r, g', out)"
    for sndr x y g r g' out
  proof -
    obtain b g1 out1 where rm: "object_man_remove sndr g = (b, g1, out1)"
      by (cases "object_man_remove sndr g")
    have s1: "snake g1 = Some s" using rm sn by (auto simp: object_man_remove_def split: if_splits)
    obtain pts k where ep: "eat_points (cls sndr) (Game_getSpeed g1) = (pts, k)"
      by (cases "eat_points (cls sndr) (Game_getSpeed g1)")
    obtain e2 s2 out3 where sl: "setLength (Some (getLength s + k)) s = (e2, s2, out3)"
      by (cases "setLength (Some (getLength s + k)) s")
    have ok2: "length_ok s2" by (rule setLength_length_ok[OF sl ok])
    have "snake g' = Some s2"
      using ev rm s1 ep sl unfolding onEat_def Let_def
      by (cases e2) (auto simp: end_game_def pause_def object_man_stop_def split: if_splits)
    then show ?thesis using ok2 getLength_ge by blast
  qed
  have f': "\<forall>sndr x y g r g' out. snake g = Some s \<and> length_ok s \<and> onEat sndr x y g = (r, g', out) \<longrightarrow>
      (\<exists>s'. snake g' = Some s' \<and> length_ok s' \<and> MIN_LENGTH \<le> getLength s')"
    using f by blast
  show ?thesis by (intro conjI a b c d e f')
qed

text \<open>
  An instance: a Player of length 3 asked for length 1 gets length 2, and grows to 5.
\<close>

theorem snake_length_at_least_MIN_witness:
  "length_ok \<lparr>self = Entity 0 Snake_class, body_blocks = [(0, 0), (10, 0), (20, 0)],
      speed = Some 3, heading = Some Headings_Right, heading_queue = [], length_cfg = Some 3,
      applied_upgrades = []\<rparr> \<and>
   setLength (Some 1) \<lparr>self = Entity 0 Snake_class, body_blocks = [(0, 0), (10, 0), (20, 0)],
      speed = Some 3, heading = Some Headings_Right, heading_queue = [], length_cfg = Some 3,
      applied_upgrades = []\<rparr> =
     (None, \<lparr>self = Entity 0 Snake_class, body_blocks = [(0, 0), (10, 0), (20, 0)],
      speed = Some 3, heading = Some Headings_Right, heading_queue = [], length_cfg = Some 2,
      applied_upgrades = []\<rparr>, []) \<and>
   setLength (Some (3 + 2)) \<lparr>self = Entity 0 Snake_class, body_blocks = [(0, 0), (10, 0), (20, 0)],
      speed = Some 3, heading = Some Headings_Right, heading_queue = [], length_cfg = Some 3,
      applied_upgrades = []\<rparr> =
     (None, \<lparr>self = Entity 0 Snake_class, body_blocks = [(0, 0), (10, 0), (20, 0)],
      speed = Some 3, heading = Some Headings_Right, heading_queue = [], length_cfg = Some 5,
      applied_upgrades = []\<rparr>, []) \<and>
   getLength \<lparr>self = Entity 0 Snake_class, body_blocks = [(0, 0), (10, 0), (20, 0)],
      speed = Some 3, heading = Some Headings_Right, heading_queue = [], length_cfg = Some 3,
      applied_upgrades = []\<rparr> = 3 \<and>
   MIN_LENGTH \<le> 3"
proof -
  let ?s = "\<lparr>self = Entity 0 Snake_class, body_blocks = [(0, 0), (10, 0), (20, 0)],
      speed = Some 3, heading = Some Headings_Right, heading_queue = [], length_cfg = Some 3,
      applied_upgrades = []\<rparr>"
  have ok: "length_ok ?s" by (simp add: length_ok_def MIN_LENGTH_def)
  have gl: "getLength ?s = 3" by (simp add: getLength_def)
  have sl: "setLength (Some 1) ?s = (None, ?s\<lparr>length_cfg := Some 2\<rparr>, [])"
    by (simp add: setLength_def MIN_LENGTH_def)
  note t = snake_length_at_least_MIN[of ?s]
  have a: "MIN_LENGTH \<le> getLength ?s" using t ok by blast
  have b: "length_cfg (?s\<lparr>length_cfg := Some 2\<rparr>) = Some MIN_LENGTH"
    using t ok sl by (simp add: MIN_LENGTH_def)
  have c: "setLength (Some (getLength ?s + 2)) ?s =
      (None, ?s\<lparr>length_cfg := Some (getLength ?s + 2)\<rparr>, [])"
    using t ok by simp
  show ?thesis using ok sl a c gl by simp
qed

section \<open>Properties of the game\<close>

text \<open>
  Claim C6 (eating a mouse at speed 3). When the Player moves at speed level 3 and the
  sender of the \<open>eat\<close> event is a mouse, \<open>onEat\<close> adds \<open>3 * 3 = 9\<close> to the score and
  \<open>ceil(3 * 0.5) = 2\<close> to the configured length of the Player.
\<close>

theorem onEat_mouse_at_speed_3:
  assumes sn: "snake g = Some s" and sp: "getSpeed s = 3" and m: "cls sndr = Mouse_class"
    and ok: "length_ok s" and ev: "onEat sndr x y g = (r, g', out)"
  shows "score g' = score g + 3 * 3 \<and> score g' = score g + 9 \<and>
         (\<exists>s'. snake g' = Some s' \<and> getLength s' = getLength s + \<lceil>3 * (1 / 2 :: rat)\<rceil> \<and>
               getLength s' = getLength s + 2)"
proof -
  obtain b g1 out1 where rm: "object_man_remove sndr g = (b, g1, out1)"
    by (cases "object_man_remove sndr g")
  have s1: "snake g1 = Some s" and sc1: "score g1 = score g"
    using rm sn by (auto simp: object_man_remove_def split: if_splits)
  have gs: "Game_getSpeed g1 = 3" using s1 sp by (simp add: Game_getSpeed_def)
  have c: "\<lceil>3 * (1 / 2 :: rat)\<rceil> = 2" by simp linarith
  have ep: "eat_points (cls sndr) (Game_getSpeed g1) = (9, 2)"
    using m gs c by (simp add: eat_points_def Let_def)
  have sl: "setLength (Some (getLength s + 2)) s =
      (None, s\<lparr>length_cfg := Some (getLength s + 2)\<rparr>, [])"
    by (rule setLength_grow[OF ok]) simp
  have gl: "getLength (s\<lparr>length_cfg := Some (getLength s + 2)\<rparr>) = getLength s + 2"
    using getLength_ge[OF ok] by (simp add: getLength_def MIN_LENGTH_def)
  have "score g' = score g + 9 \<and> snake g' = Some (s\<lparr>length_cfg := Some (getLength s + 2)\<rparr>)"
    using ev rm s1 sc1 ep sl unfolding onEat_def Let_def
    by (auto simp: end_game_def pause_def object_man_stop_def split: if_splits)
  then show ?thesis using gl c by simp
qed

text \<open>
  An instance: the new game of the driver with a mouse and a grain; the score goes from 0
  to 9 and the length from 2 to 4.
\<close>

theorem onEat_mouse_at_speed_3_witness:
  "snake driver_game_with_prey =
     Some \<lparr>self = Entity 0 Snake_class, body_blocks = [], speed = Some 3,
           heading = None, heading_queue = [Headings_Right], length_cfg = Some 2,
           applied_upgrades = []\<rparr> \<and>
   getSpeed \<lparr>self = Entity 0 Snake_class, body_blocks = [], speed = Some 3,
           heading = None, heading_queue = [Headings_Right], length_cfg = Some 2,
           applied_upgrades = []\<rparr> = 3 \<and>
   score driver_game_with_prey = 0 \<and>
   score (fst (snd (onEat (Entity 1 Mouse_class) 0 10 driver_game_with_prey))) = 9 \<and>
   (\<exists>s'. snake (fst (snd (onEat (Entity 1 Mouse_class) 0 10 driver_game_with_prey))) = Some s' \<and>
         getLength s' = 4)"
proof -
  let ?s = "\<lparr>self = Entity 0 Snake_class, body_blocks = [], speed = Some 3,
           heading = None, heading_queue = [Headings_Right], length_cfg = Some 2,
           applied_upgrades = []\<rparr>"
  have sn: "snake driver_game_with_prey = Some ?s" by (simp add: driver_game_with_prey_eq)
  have sp: "getSpeed ?s = 3" by (simp add: getSpeed_def)
  have m: "cls (Entity 1 Mouse_class) = Mouse_class" by simp
  have ok: "length_ok ?s" by (simp add: length_ok_def MIN_LENGTH_def)
  have ev: "onEat (Entity 1 Mouse_class) 0 10 driver_game_with_prey =
      (fst (onEat (Entity 1 Mouse_class) 0 10 driver_game_with_prey),
       fst (snd (onEat (Entity 1 Mouse_class) 0 10 driver_game_with_prey)),
       snd (snd (onEat (Entity 1 Mouse_class) 0 10 driver_game_with_prey)))" by simp
  have sc: "score driver_game_with_prey = 0" by (simp add: driver_game_with_prey_eq)
  have gl: "getLength ?s = 2" by (simp add: getLength_def)
  show ?thesis
    using onEat_mouse_at_speed_3[OF sn sp m ok ev] sn sp sc gl by auto
qed

lemma finished_frozen:
  "finished g \<Longrightarrow> call_game advance frame c g = g"
  by (cases c) (simp_all add: start_def pause_def end_game_def)

lemma finished_frozen_all:
  "finished g \<Longrightarrow> call_all advance frame cs g = g"
  by (induction cs) (simp_all add: finished_frozen)

text \<open>
  What holds of \<open>Game.end\<close>: called on a game that is started (not finished, Player not
  dead) it stops the scheduler and marks the game finished, and once \<open>finished\<close> is set
  no sequence of \<open>start()\<close>, \<open>pause()\<close> and \<open>end()\<close> calls changes the state, whatever the
  level set-up and the animation frame would do.
\<close>

lemma end_game_started:
  "started g \<Longrightarrow> \<not> finished g \<Longrightarrow> \<not> player_dead g \<Longrightarrow>
     finished (end_game g) \<and> \<not> started (end_game g) \<and> \<not> object_man_started (end_game g) \<and>
     call_all advance frame cs (end_game g) = end_game g"
proof -
  assume a: "started g" "\<not> finished g" "\<not> player_dead g"
  then have f: "finished (end_game g) \<and> \<not> started (end_game g) \<and> \<not> object_man_started (end_game g)"
    by (simp add: end_game_def pause_def object_man_stop_def)
  then show ?thesis using finished_frozen_all[of "end_game g" advance frame cs] by simp
qed

text \<open>
  Claim C7 (\<open>end()\<close> is terminal in every state, running or paused). The code does not
  do this on a paused game. The game of the driver, not yet started, is started (which
  sets up the first level), paused and ended, and then started once more. \<open>end()\<close> tests
  \<open>started\<close>, which \<open>pause()\<close> has cleared, and returns without setting \<open>finished\<close>; the
  last \<open>start()\<close> therefore starts the scheduler again. The comment of \<open>Game.end\<close> reads
  "Stops the game timer and prevents starting game without a restart".
\<close>

theorem end_game_paused_not_terminal:
  "call_all (\<lambda>g. g\<lparr>level := level g + 1\<rparr>) (\<lambda>g. g) [Start, Pause]
     \<lparr>started = False, finished = False, player_dead = False, level = - 1,
      levels_count = 7, object_man_started = False\<rparr> =
     \<lparr>started = False, finished = False, player_dead = False, level = 0,
      levels_count = 7, object_man_started = False\<rparr> \<and>
   end_game \<lparr>started = False, finished = False, player_dead = False, level = 0,
      levels_count = 7, object_man_started = False\<rparr> =
     \<lparr>started = False, finished = False, player_dead = False, level = 0,
      levels_count = 7, object_man_started = False\<rparr> \<and>
   call_all (\<lambda>g. g\<lparr>level := level g + 1\<rparr>) (\<lambda>g. g) [Start, Pause, End]
     \<lparr>started = False, finished = False, player_dead = False, level = - 1,
      levels_count = 7, object_man_started = False\<rparr> =
     \<lparr>started = False, finished = False, player_dead = False, level = 0,
      levels_count = 7, object_man_started = False\<rparr> \<and>
   call_all (\<lambda>g. g\<lparr>level := level g + 1\<rparr>) (\<lambda>g. g) [Start, Pause, End, Start]
     \<lparr>started = False, finished = False, player_dead = False, level = - 1,
      levels_count = 7, object_man_started = False\<rparr> =
     \<lparr>started = True, finished = False, player_dead = False, level = 0,
      levels_count = 7, object_man_started = True\<rparr>"
  by (simp add: pause_def end_game_def start_def object_man_stop_def object_man_start_def
      getLevelNum_def FRAME_RATE_def)

section \<open>Properties of the level generator\<close>







subsection \<open>The search for a free cell\<close>





lemma find_free_Some:
  assumes "find_free bs sx sy rnd g k = Some r"
  shows "\<exists>n\<ge>k. getAllocObj g (genNumber (fst (rnd n)) 0 (sx - 1) * bs)
                 (genNumber (snd (rnd n)) 0 (sy - 1) * bs) = None"
proof (rule find_free.raw_induct[where P = "\<lambda>bs sx sy rnd g k r.
         \<exists>n\<ge>k. getAllocObj g (genNumber (fst (rnd n)) 0 (sx - 1) * bs)
                 (genNumber (snd (rnd n)) 0 (sy - 1) * bs) = None", OF _ assms])
  fix ff :: "int \<Rightarrow> int \<Rightarrow> int \<Rightarrow> (nat \<Rightarrow> rat \<times> rat) \<Rightarrow> 'a Game_scheme \<Rightarrow> nat
               \<Rightarrow> ((int \<times> int) \<times> nat) option"
    and bs sx sy rnd and g :: "'a Game_scheme" and k r
  assume IH: "\<And>bs sx sy rnd g k r. ff bs sx sy rnd g k = Some r \<Longrightarrow>
         \<exists>n\<ge>k. getAllocObj g (genNumber (fst (rnd n)) 0 (sx - 1) * bs)
                 (genNumber (snd (rnd n)) 0 (sy - 1) * bs) = None"
    and eq: "(let start_x = genNumber (fst (rnd k)) 0 (sx - 1) * bs;
                  start_y = genNumber (snd (rnd k)) 0 (sy - 1) * bs
              in if getAllocObj g start_x start_y \<noteq> None
                 then ff bs sx sy rnd g (k + 1)
                 else Some ((start_x, start_y), k + 1)) = Some r"
  show "\<exists>n\<ge>k. getAllocObj g (genNumber (fst (rnd n)) 0 (sx - 1) * bs)
                 (genNumber (snd (rnd n)) 0 (sy - 1) * bs) = None"
  proof (cases "getAllocObj g (genNumber (fst (rnd k)) 0 (sx - 1) * bs)
                 (genNumber (snd (rnd k)) 0 (sy - 1) * bs) = None")
    case True
    then show ?thesis by blast
  next
    case False
    then have "ff bs sx sy rnd g (k + 1) = Some r" using eq by (simp add: Let_def)
    from IH[OF this] obtain n where "k + 1 \<le> n"
      "getAllocObj g (genNumber (fst (rnd n)) 0 (sx - 1) * bs)
                 (genNumber (snd (rnd n)) 0 (sy - 1) * bs) = None" by blast
    moreover have "k \<le> n" using calculation(1) by simp
    ultimately show ?thesis by blast
  qed
qed


lemma find_free_None:
  assumes "\<forall>n\<ge>k. \<not> free_cell g (drawn bnd rnd n)"
  shows "find_free DEFAULT_block_size (width bnd div DEFAULT_block_size)
             (height bnd div DEFAULT_block_size) rnd g k = None"
proof (cases "find_free DEFAULT_block_size (width bnd div DEFAULT_block_size)
             (height bnd div DEFAULT_block_size) rnd g k")
  case None
  then show ?thesis .
next
  case (Some r)
  from find_free_Some[OF Some] obtain n where "k \<le> n" "free_cell g (drawn bnd rnd n)"
    unfolding free_cell_def drawn_def by auto
  then show ?thesis using assms by blast
qed


subsection \<open>Placing one object\<close>






subsection \<open>What a run of placements adds to the game\<close>






subsection \<open>The inner loop\<close>






subsection \<open>The whole call\<close>














section \<open>Properties of the frame handler\<close>

lemma round_8: "Math_round (of_int FRAME_RATE / of_int SpeedLevels_Max) = 8"
proof -
  have "(40 :: rat) / 5 + 1 / 2 = 17 / 2" by simp
  then have "\<lfloor>(40 :: rat) / 5 + 1 / 2\<rfloor> = 8" by simp linarith
  then show ?thesis by (simp add: Math_round_def FRAME_RATE_def SpeedLevels_Max_def)
qed

lemma handleFrames_error_iff:
  "handleFrames obj = Inl e \<longleftrightarrow>
     has_draw obj \<and> has_getSpeed obj \<and>
     \<bar>of_int (Math_round (of_int FRAME_RATE / of_int SpeedLevels_Max)) * getSpeed_result obj
        - of_int FRAME_RATE\<bar> \<ge> of_int FRAME_RATE \<and>
     e = Error ''Slither expects a higher frame rate; try 30fps or better.''"
  unfolding handleFrames_def Let_def by auto

lemma in_range_no_error:
  assumes "of_int SpeedLevels_Min \<le> getSpeed_result obj"
      and "getSpeed_result obj \<le> of_int SpeedLevels_Max"
  shows "\<not> \<bar>of_int (Math_round (of_int FRAME_RATE / of_int SpeedLevels_Max)) * getSpeed_result obj
        - of_int FRAME_RATE\<bar> \<ge> of_int FRAME_RATE"
  using assms unfolding round_8 by (simp add: FRAME_RATE_def SpeedLevels_Min_def SpeedLevels_Max_def)

lemma handleFrames_in_range:
  assumes "of_int SpeedLevels_Min \<le> getSpeed_result obj"
      and "getSpeed_result obj \<le> of_int SpeedLevels_Max"
  shows "\<exists>r. handleFrames obj = Inr r"
proof (cases "handleFrames obj")
  case (Inl e)
  then show ?thesis using in_range_no_error[OF assms] handleFrames_error_iff[of obj e] by simp
next
  case (Inr r)
  then show ?thesis by simp
qed

lemma draw_in_range:
  "\<forall>obj\<in>set objs. of_int SpeedLevels_Min \<le> getSpeed_result obj \<and>
       getSpeed_result obj \<le> of_int SpeedLevels_Max \<Longrightarrow>
   \<exists>rs. ObjectManager_draw objs = Inr rs"
proof (induction objs)
  case Nil
  then show ?case by simp
next
  case (Cons obj objs)
  obtain r where "handleFrames obj = Inr r" using handleFrames_in_range[of obj] Cons.prems by auto
  moreover obtain rs where "ObjectManager_draw objs = Inr rs" using Cons by auto
  ultimately show ?case by simp
qed

lemma genNumber_range:
  assumes "0 \<le> u" "u < 1" "low \<le> high"
  shows "low \<le> genNumber u low high \<and> genNumber u low high \<le> high"
proof (cases "low = high")
  case True
  then show ?thesis by (simp add: genNumber_def)
next
  case False
  define n where "n = high - low + 1"
  have n: "0 < n" using assms(3) by (simp add: n_def)
  have lo: "0 \<le> u * of_int n" using assms(1) n by simp
  have hi: "u * of_int n < of_int n" using assms(2) n by simp
  have "0 \<le> \<lfloor>u * of_int n\<rfloor>" using lo by simp
  moreover have "\<lfloor>u * of_int n\<rfloor> < n" using hi by (simp add: floor_less_iff)
  ultimately show ?thesis using False by (simp add: genNumber_def n_def)
qed

lemma setSpeed_clamped:
  assumes "0 \<le> u" "u < 1"
  shows "of_int SpeedLevels_Min \<le> getSpeed (setSpeed u arg b) \<and>
         getSpeed (setSpeed u arg b) \<le> of_int SpeedLevels_Max"
proof (cases arg)
  case (Speed v)
  then show ?thesis
    by (auto simp: getSpeed_def setSpeed_def SpeedLevels_Min_def SpeedLevels_Max_def)
next
  case Random_speed
  have "1 \<le> genNumber u 1 5 \<and> genNumber u 1 5 \<le> 5"
    using genNumber_range[OF assms, of 1 5] by simp
  then show ?thesis using Random_speed
    by (auto simp: getSpeed_def setSpeed_def SpeedLevels_Min_def SpeedLevels_Max_def)
next
  case No_speed
  then show ?thesis
    by (auto simp: getSpeed_def setSpeed_def SpeedLevels_Min_def SpeedLevels_Max_def)
qed

text \<open>
  Claim C8 (the frame rate error). For an object that has \<open>draw\<close> and \<open>getSpeed\<close>, as
  every game object has, \<open>handleFrames\<close> throws exactly when
  \<open>|round(FRAME_RATE / SpeedLevels.Max) * speed - FRAME_RATE| >= FRAME_RATE\<close>, and what it
  throws is the frame rate error. \<open>setSpeed\<close> leaves a speed between \<open>SpeedLevels.Min = 1\<close>
  and \<open>SpeedLevels.Max = 5\<close>, whatever it is given. With \<open>FRAME_RATE = 40\<close> an object of
  such a speed makes \<open>handleFrames\<close> return, and a frame over objects of such speeds
  (\<open>ObjectManager.draw\<close>) does not stop with the error.
\<close>

theorem frame_rate_error_unreachable:
  "(handleFrames obj = Inl e \<longleftrightarrow>
      has_draw obj \<and> has_getSpeed obj \<and>
      \<bar>of_int (Math_round (of_int FRAME_RATE / of_int SpeedLevels_Max)) * getSpeed_result obj
         - of_int FRAME_RATE\<bar> \<ge> of_int FRAME_RATE \<and>
      e = Error ''Slither expects a higher frame rate; try 30fps or better.'') \<and>
   (0 \<le> u \<and> u < 1 \<longrightarrow>
      of_int SpeedLevels_Min \<le> getSpeed (setSpeed u arg b) \<and>
      getSpeed (setSpeed u arg b) \<le> of_int SpeedLevels_Max) \<and>
   (of_int SpeedLevels_Min \<le> getSpeed_result obj \<and> getSpeed_result obj \<le> of_int SpeedLevels_Max
      \<longrightarrow> (\<exists>r. handleFrames obj = Inr r)) \<and>
   ((\<forall>ob\<in>set objs. of_int SpeedLevels_Min \<le> getSpeed_result ob \<and>
        getSpeed_result ob \<le> of_int SpeedLevels_Max)
      \<longrightarrow> (\<exists>rs. ObjectManager_draw objs = Inr rs))"
  using handleFrames_error_iff[of obj e] setSpeed_clamped[of u arg b]
    handleFrames_in_range[of obj] draw_in_range[of objs]
  by blast

text \<open>
  Instances: an unclamped speed of 10 throws; \<open>setSpeed(10)\<close> stores 5; at speed 5 the
  object is drawn in every frame; at speed 3 the first frame is skipped.
\<close>

theorem frame_rate_error_unreachable_witness:
  "handleFrames \<lparr>has_draw = True, has_getSpeed = True, getSpeed_result = 10,
      frame_skip_ctr = None\<rparr> =
     Inl (Error ''Slither expects a higher frame rate; try 30fps or better.'') \<and>
   getSpeed (setSpeed 0 (Speed 10) \<lparr>self = Entity 1 Rat_class, body_blocks = [], speed = None,
      heading = None\<rparr>) = 5 \<and>
   handleFrames \<lparr>has_draw = True, has_getSpeed = True, getSpeed_result = 5,
      frame_skip_ctr = None\<rparr> =
     Inr (\<lparr>has_draw = True, has_getSpeed = True, getSpeed_result = 5,
      frame_skip_ctr = None\<rparr>, True) \<and>
   handleFrames \<lparr>has_draw = True, has_getSpeed = True, getSpeed_result = 3,
      frame_skip_ctr = None\<rparr> =
     Inr (\<lparr>has_draw = True, has_getSpeed = True, getSpeed_result = 3,
      frame_skip_ctr = Some 1\<rparr>, False) \<and>
   (\<exists>rs. ObjectManager_draw
      [\<lparr>has_draw = True, has_getSpeed = True, getSpeed_result = 3, frame_skip_ctr = None\<rparr>,
       \<lparr>has_draw = True, has_getSpeed = True, getSpeed_result = 5, frame_skip_ctr = None\<rparr>] =
      Inr rs)"
proof -
  let ?o10 = "\<lparr>has_draw = True, has_getSpeed = True, getSpeed_result = 10,
      frame_skip_ctr = None\<rparr>"
  let ?o5 = "\<lparr>has_draw = True, has_getSpeed = True, getSpeed_result = 5,
      frame_skip_ctr = None\<rparr>"
  let ?o3 = "\<lparr>has_draw = True, has_getSpeed = True, getSpeed_result = 3,
      frame_skip_ctr = None\<rparr>"
  let ?b = "\<lparr>self = Entity 1 Rat_class, body_blocks = [], speed = None, heading = None\<rparr>"
  let ?msg = "Error ''Slither expects a higher frame rate; try 30fps or better.''"
  have r53: "Math_round (40 / (40 - \<bar>8 * 3 - 40\<bar>) :: rat) = 2"
    by (simp add: Math_round_def) linarith
  have a: "handleFrames ?o10 = Inl ?msg"
    by (rule frame_rate_error_unreachable[THEN conjunct1, THEN iffD2], unfold round_8)
      (simp add: FRAME_RATE_def)
  have b: "getSpeed (setSpeed 0 (Speed 10) ?b) = 5"
    by (simp add: getSpeed_def setSpeed_def SpeedLevels_Min_def SpeedLevels_Max_def)
  have c: "handleFrames ?o5 = Inr (?o5, True)"
    unfolding handleFrames_def round_8 by (simp add: FRAME_RATE_def)
  have d: "handleFrames ?o3 = Inr (?o3\<lparr>frame_skip_ctr := Some 1\<rparr>, False)"
    unfolding handleFrames_def round_8 using r53 by (simp add: FRAME_RATE_def)
  have e: "\<exists>rs. ObjectManager_draw [?o3, ?o5] = Inr rs"
    using frame_rate_error_unreachable[of ?o3 ?msg 0 "Speed 10" ?b "[?o3, ?o5]"]
    by (simp add: SpeedLevels_Min_def SpeedLevels_Max_def)
  show ?thesis using a b c d e by simp
qed

end
